theory Spec2Isabelle
  imports Complex_Main "HOL-Library.Sublist" "HOL-Library.Char_ord" "HOL-Library.List_Lexorder"
    "HOL-Library.Log_Nat"
begin

section \<open>Errors\<close>

text \<open>
  Every exception the two modules can raise is a value. \<open>KeyError\<close> carries the key that
  was looked up, \<open>ValueError\<close> and \<open>ModuleNotFoundError\<close> their message, and
  \<open>LibraryError\<close> stands for whatever an external library (pandas, numpy, scikit-learn,
  seaborn, PyKEEN, the operating system) raises on its own account.
\<close>

datatype error =
    KeyError string
  | ValueError string
  | ModuleNotFoundError string
  | ZeroDivisionError
  | LibraryError string

section \<open>vp4p/classification/classify.py\<close>

subsection \<open>get_classifier\<close>

text \<open>
  The estimators are built by scikit-learn. A constructor expression of the source, such
  as \<open>sk.svm.SVC(*args, gamma='scale')\<close>, is recorded as the class with the positional
  \<open>*args\<close>, passed through unchanged, and the keyword arguments written in the source.
  Evaluating it is the parameter \<open>build\<close>: the attribute lookups on the package and the
  call of the constructor return the estimator or raise (an \<open>AttributeError\<close> when the
  submodule has not been imported, a \<open>TypeError\<close> when the constructor does not take the
  positional arguments).
\<close>

datatype kwval = KwStr string | KwNum rat

datatype 'a constructor_call =
    LogisticRegression "'a list" "(string \<times> kwval) list"
  | SVC "'a list" "(string \<times> kwval) list"
  | RandomForestClassifier "'a list" "(string \<times> kwval) list"

definition not_found_message :: string where
  "not_found_message =
     ''The entered model was not found. Please check the model that was inputted''"

definition get_classifier ::
  "('a constructor_call \<Rightarrow> error + 'm) \<Rightarrow> string \<Rightarrow> 'a list \<Rightarrow> error + 'm" where
  "get_classifier build model_name args =
     (if model_name = ''logistic_regression'' then
        build (LogisticRegression args [(''solver'', KwStr ''lbfgs'')])
      else if model_name = ''elastic_net'' then
        build (LogisticRegression args
              [(''penalty'', KwStr ''elasticnet''), (''l1_ratio'', KwNum (1 / 2)),
               (''solver'', KwStr ''saga'')])
      else if model_name = ''svm'' then
        build (SVC args [(''gamma'', KwStr ''scale'')])
      else if model_name = ''random_forrest'' then
        build (RandomForestClassifier args [])
      else Inl (ModuleNotFoundError not_found_message))"

text \<open>
  A process in which only \<open>import sklearn\<close> has run: every lookup of a submodule on the
  package raises.
\<close>

definition submodules_not_loaded :: "'a constructor_call \<Rightarrow> error + 'm" where
  "submodules_not_loaded call = Inl (LibraryError ''AttributeError'')"

subsection \<open>do_classification\<close>

text \<open>
  \<open>cross_validate\<close> and the seaborn calls belong to external libraries and are parameters
  of the model. \<open>cross_validate\<close> receives the estimator, the data, the labels, the number
  of folds and the list of scorer names, and returns the result dictionary (an association
  list from key to per-fold scores) or raises. The four seaborn calls (\<open>set\<close>,
  \<open>boxplot\<close>, \<open>set\<close> on the axes, \<open>savefig\<close>) are one effect \<open>render\<close> that receives the
  plotted series, the title, the tick labels and the output file, and may raise.
\<close>

definition cv_scoring :: "string list" where
  "cv_scoring = [''roc_auc'', ''accuracy'', ''f1'']"

definition scoring_metrics :: "string list" where
  "scoring_metrics = [''test_accuracy'', ''test_f1_micro'', ''test_roc_auc'']"

text \<open>\<open>cv_results[key]\<close> on a Python dictionary.\<close>

definition dict_get :: "(string \<times> 'v) list \<Rightarrow> string \<Rightarrow> error + 'v" where
  "dict_get d k = (case map_of d k of None \<Rightarrow> Inl (KeyError k) | Some v \<Rightarrow> Inr v)"

text \<open>The loop \<open>for scores in scoring_metrics: data.append(list(cv_results[scores]))\<close>.\<close>

fun collect_scores :: "(string \<times> 's list) list \<Rightarrow> string list \<Rightarrow> error + 's list list" where
  "collect_scores cv_results [] = Inr []"
| "collect_scores cv_results (k # ks) =
     (case dict_get cv_results k of
        Inl e \<Rightarrow> Inl e
      | Inr v \<Rightarrow>
          (case collect_scores cv_results ks of
             Inl e \<Rightarrow> Inl e
           | Inr vs \<Rightarrow> Inr (v # vs)))"

text \<open>\<open>str\<close> of a list of plain strings, as the f-string of the default title prints it.\<close>

definition py_repr :: "string \<Rightarrow> string" where
  "py_repr s = [CHR 0x27] @ s @ [CHR 0x27]"

fun py_join :: "string \<Rightarrow> string list \<Rightarrow> string" where
  "py_join sep [] = []"
| "py_join sep [s] = s"
| "py_join sep (s # t # ss) = s @ sep @ py_join sep (t # ss)"

definition py_str_list :: "string list \<Rightarrow> string" where
  "py_str_list ss = ''['' @ py_join '', '' (map py_repr ss) @ '']''"

definition plot_title :: "string option \<Rightarrow> string" where
  "plot_title title =
     (case title of
        None \<Rightarrow> ''Box Plot of Scoring Metrics: '' @ py_str_list scoring_metrics @ [CHR 0x0A]
      | Some t \<Rightarrow>
          if t = [] then ''Box Plot of Scoring Metrics: '' @ py_str_list scoring_metrics @ [CHR 0x0A]
          else t)"

definition do_classification ::
  "('a constructor_call \<Rightarrow> error + 'm) \<Rightarrow>
   ('m \<Rightarrow> 'd \<Rightarrow> 'l \<Rightarrow> nat \<Rightarrow> string list \<Rightarrow> error + (string \<times> 's list) list) \<Rightarrow>
   ('s list list \<Rightarrow> string \<Rightarrow> string list \<Rightarrow> string \<Rightarrow> error option) \<Rightarrow>
   'd \<Rightarrow> 'l \<Rightarrow> string \<Rightarrow> string \<Rightarrow> string option \<Rightarrow> 'a list \<Rightarrow>
   error + (string \<times> 's list) list" where
  "do_classification build cross_validate render data labels model_name outfile title args =
     (case get_classifier build model_name args of
        Inl e \<Rightarrow> Inl e
      | Inr model \<Rightarrow>
          (case cross_validate model data labels 10 cv_scoring of
             Inl e \<Rightarrow> Inl e
           | Inr cv_results \<Rightarrow>
               (case collect_scores cv_results scoring_metrics of
                  Inl e \<Rightarrow> Inl e
                | Inr series \<Rightarrow>
                    (case render series (plot_title title) scoring_metrics outfile of
                       Some e \<Rightarrow> Inl e
                     | None \<Rightarrow> Inr cv_results))))"

text \<open>
  The keys scikit-learn's \<open>cross_validate\<close> gives its result when \<open>scoring\<close> is a list of
  scorer names: the two timing entries and \<open>test_<name>\<close> for every name of the list.
\<close>

definition sklearn_cv_keys :: "string list \<Rightarrow> string list" where
  "sklearn_cv_keys scoring = [''fit_time'', ''score_time''] @ map (\<lambda>s. ''test_'' @ s) scoring"

section \<open>clep/embedding/kge.py\<close>

subsection \<open>Data frames\<close>

text \<open>
  An edge is one row of the columns \<open>source\<close>, \<open>relation\<close>, \<open>target\<close>. A data frame is
  the list of its rows, each with its index label: pandas keeps the labels through
  filtering and \<open>drop_duplicates\<close>, selects rows by them in \<open>index.isin\<close>, and does not
  require them to be unique.
\<close>

record edge =
  source :: string
  relation :: string
  target :: string

type_synonym 'i frame = "('i \<times> edge) list"

text \<open>
  The edgelist handed to \<open>do_kge\<close> either has a \<open>label\<close> column, whose cells may be
  missing (\<open>None\<close> is NaN), or has only the three edge columns.
\<close>

datatype ('i, 'l) edgelist =
    WithLabel "('i \<times> edge \<times> 'l option) list"
  | WithoutLabel "('i \<times> edge) list"

text \<open>
  \<open>drop_duplicates\<close> and \<open>unique\<close> keep the first occurrence of every key, in the order of
  appearance; \<open>seen\<close> holds the keys met so far.
\<close>

fun drop_dups_by :: "('a \<Rightarrow> 'k) \<Rightarrow> 'k list \<Rightarrow> 'a list \<Rightarrow> 'a list" where
  "drop_dups_by key seen [] = []"
| "drop_dups_by key seen (x # xs) =
     (if key x \<in> set seen then drop_dups_by key seen xs
      else x # drop_dups_by key (key x # seen) xs)"

definition pd_unique :: "'a list \<Rightarrow> 'a list" where
  "pd_unique xs = drop_dups_by (\<lambda>x. x) [] xs"

definition drop_duplicates :: "'i frame \<Rightarrow> 'i frame" where
  "drop_duplicates df = drop_dups_by snd [] df"

text \<open>The number of rows of a relation type in a frame.\<close>

definition count_relation :: "string \<Rightarrow> 'i frame \<Rightarrow> nat" where
  "count_relation r df = length (filter (\<lambda>row. relation (snd row) = r) df)"

subsection \<open>DataFrame.sample\<close>

text \<open>
  Python's \<open>round\<close> on a number: to the nearest integer, a tie to the even one. In
  this subsection and the next the fraction of a round is an exact rational and the
  product \<open>frac * len\<close> is exact: the splitter in exact arithmetic, on frames of any
  size. The splitter as the source computes it, in binary floating point, follows after
  them.
\<close>

definition py_round :: "rat \<Rightarrow> int" where
  "py_round x =
     (let f = \<lfloor>x\<rfloor>; d = x - of_int f
      in if d < 1 / 2 then f else if 1 / 2 < d then f + 1 else if even f then f else f + 1)"

definition sample_size :: "rat \<Rightarrow> nat \<Rightarrow> nat" where
  "sample_size fraction n = nat (py_round (fraction * of_nat n))"

text \<open>
  \<open>sample(frac=frac_size)\<close> draws without replacement with numpy's global generator. The
  generator is the parameter \<open>choice\<close>: from its state, the population size and the sample
  size it gives the drawn positions and its next state. pandas rejects a fraction above 1
  or below 0, rounds \<open>frac * len\<close> to the sample size and takes the rows at the drawn
  positions, in the order drawn.
\<close>

type_synonym 'g sampler = "'g \<Rightarrow> nat \<Rightarrow> nat \<Rightarrow> nat list \<times> 'g"

definition sample :: "'g sampler \<Rightarrow> 'g \<Rightarrow> rat \<Rightarrow> 'a list \<Rightarrow> error + ('a list \<times> 'g)" where
  "sample choice g fraction rows =
     (if 1 < fraction then
        Inl (ValueError ''Replace has to be set to True when upsampling the population frac > 1.'')
      else if fraction < 0 then
        Inl (ValueError ''A negative number of rows requested. Please provide frac >= 0.'')
      else
        (let (positions, g') = choice g (length rows) (sample_size fraction (length rows))
         in if \<forall>p \<in> set positions. p < length rows
            then Inr (map (\<lambda>p. rows ! p) positions, g')
            else Inl (LibraryError ''indices are out-of-bounds'')))"

text \<open>
  What numpy's \<open>choice(n, size=k, replace=False)\<close> guarantees: \<open>k\<close> distinct positions
  below \<open>n\<close>, whenever \<open>k \<le> n\<close>.
\<close>

definition valid_sampler :: "'g sampler \<Rightarrow> bool" where
  "valid_sampler choice \<longleftrightarrow>
     (\<forall>g n k. k \<le> n \<longrightarrow>
        length (fst (choice g n k)) = k \<and> distinct (fst (choice g n k))
        \<and> (\<forall>p \<in> set (fst (choice g n k)). p < n))"

text \<open>
  A concrete generator for running the model: its state is a list of raw draws; each
  position is picked among the remaining ones by the next draw (0 once the list is used
  up). Every ordered selection without replacement is the output for some state.
\<close>

fun pick_positions :: "nat list \<Rightarrow> nat list \<Rightarrow> nat \<Rightarrow> nat list \<times> nat list" where
  "pick_positions remaining g 0 = ([], g)"
| "pick_positions [] g (Suc k) = ([], g)"
| "pick_positions (r # rs) g (Suc k) =
     (let i = (case g of [] \<Rightarrow> 0 | x # _ \<Rightarrow> x) mod length (r # rs);
          (ps, g') = pick_positions (take i (r # rs) @ drop (Suc i) (r # rs)) (tl g) k
      in ((r # rs) ! i # ps, g'))"

definition stream_choice :: "(nat list) sampler" where
  "stream_choice g n k = pick_positions [0..<n] g k"

subsection \<open>_weighted_splitter\<close>

text \<open>
  \<open>pd.concat(frames, ignore_index=True)\<close> raises on an empty list of frames and numbers
  the rows of the result from 0.
\<close>

definition pd_concat :: "'i frame list \<Rightarrow> error + nat frame" where
  "pd_concat frames =
     (if frames = [] then Inl (ValueError ''No objects to concatenate'')
      else Inr (zip [0..<length (concat frames)] (map snd (concat frames))))"

text \<open>
  The inner loop over the relation types: the frame of the relation is sampled, the rows
  whose index label is among the labels of the sample leave \<open>data\<close>, and the sample is
  appended to \<open>frames\<close>. The result is the frames, the remaining data and the generator.
\<close>

fun sample_relations ::
  "'g sampler \<Rightarrow> rat \<Rightarrow> string list \<Rightarrow> 'i frame \<Rightarrow> 'g \<Rightarrow> error + ('i frame list \<times> 'i frame \<times> 'g)"
where
  "sample_relations choice frac_size [] data g = Inr ([], data, g)"
| "sample_relations choice frac_size (rel # rels) data g =
     (case sample choice g frac_size (filter (\<lambda>row. relation (snd row) = rel) data) of
        Inl e \<Rightarrow> Inl e
      | Inr (temp, g') \<Rightarrow>
          (case sample_relations choice frac_size rels
                  (filter (\<lambda>row. fst row \<notin> set (map fst temp)) data) g' of
             Inl e \<Rightarrow> Inl e
           | Inr (frames, data', g'') \<Rightarrow> Inr (temp # frames, data', g'')))"

text \<open>The outer loop over the fractions of the rounds.\<close>

fun split_rounds ::
  "'g sampler \<Rightarrow> rat list \<Rightarrow> string list \<Rightarrow> 'i frame \<Rightarrow> 'g \<Rightarrow> error + (nat frame list \<times> 'g)"
where
  "split_rounds choice [] rels data g = Inr ([], g)"
| "split_rounds choice (frac_size # fracs) rels data g =
     (case sample_relations choice frac_size rels data g of
        Inl e \<Rightarrow> Inl e
      | Inr (frames, data', g') \<Rightarrow>
          (case pd_concat frames of
             Inl e \<Rightarrow> Inl e
           | Inr part \<Rightarrow>
               (case split_rounds choice fracs rels data' g' of
                  Inl e \<Rightarrow> Inl e
                | Inr (parts, g'') \<Rightarrow> Inr (part # parts, g''))))"

definition unique_relations :: "'i frame \<Rightarrow> string list" where
  "unique_relations edgelist = sort (pd_unique (map (\<lambda>row. relation (snd row)) edgelist))"

text \<open>
  \<open>_weighted_splitter\<close> (an Isabelle name cannot start with an underscore). Dividing by
  \<open>1 - train_size\<close> raises when that is zero. The result is the list of the three splits
  in the order train, validation, test, and the state of the generator after the run.
\<close>

definition weighted_splitter ::
  "'g sampler \<Rightarrow> 'g \<Rightarrow> 'i frame \<Rightarrow> rat \<Rightarrow> rat \<Rightarrow> error + (nat frame list \<times> 'g)" where
  "weighted_splitter choice g edgelist train_size validation_size =
     (if 1 - train_size = 0 then Inl ZeroDivisionError
      else
        (let validation_size' = validation_size / (1 - train_size);
             test_size = 1;
             data = drop_duplicates edgelist
         in split_rounds choice [train_size, validation_size', test_size]
              (unique_relations edgelist) data g))"

text \<open>
  Recording the calls of the generator: \<open>logged\<close> turns a sampler into one whose state also
  holds the list of the calls made so far, each as population size and sample size.
\<close>

definition logged :: "'g sampler \<Rightarrow> ('g \<times> (nat \<times> nat) list) sampler" where
  "logged ch = (\<lambda>(g, calls) n k. case ch g n k of (ps, g') \<Rightarrow> (ps, (g', calls @ [(n, k)])))"

text \<open>
  Two generators answer alike under a relation \<open>R\<close> of their states when, from related
  states, they draw the same positions for every request and leave related states. One
  generator answers like itself under equality of states: that is a fixed seed.
\<close>

definition draws_alike :: "('g \<Rightarrow> 'h \<Rightarrow> bool) \<Rightarrow> 'g sampler \<Rightarrow> 'h sampler \<Rightarrow> bool" where
  "draws_alike R ch1 ch2 \<longleftrightarrow>
     (\<forall>s1 s2 n k. R s1 s2 \<longrightarrow>
        fst (ch1 s1 n k) = fst (ch2 s2 n k) \<and> R (snd (ch1 s1 n k)) (snd (ch2 s2 n k)))"

subsection \<open>Binary floating point\<close>

text \<open>
  Python's \<open>float\<close> is IEEE 754 binary64, and \<open>train_size\<close> and \<open>validation_size\<close> are
  floats. A float is modelled by its exact value, a rational number, and \<open>double_round\<close>
  is the rounding that every arithmetic operation applies to its exact result: to the
  nearest number with a significand of 53 bits, a tie to the even significand, with the
  exponent held at \<open>-1022\<close> below the normal range (gradual underflow). There is no
  infinity: binary64 overflows above \<open>2^1024\<close>, a magnitude that no product or quotient
  of the splitter reaches. \<open>binary_exponent x\<close> is the \<open>e\<close> with
  \<open>2^e \<le> x < 2^(e + 1)\<close> for a positive \<open>x\<close>, found from the bit lengths of numerator
  and denominator; \<open>ulp x\<close> is the distance of neighbouring floats around \<open>x\<close>.
\<close>

definition binary_exponent :: "rat \<Rightarrow> int" where
  "binary_exponent x =
     (let (a, b) = quotient_of x; d = bitlen a - bitlen b
      in if 2 powi d \<le> x then d else d - 1)"

definition ulp :: "rat \<Rightarrow> rat" where
  "ulp x = 2 powi (max (binary_exponent x) (- 1022) - 52)"

definition double_round :: "rat \<Rightarrow> rat" where
  "double_round x =
     (if 0 < x then of_int (py_round (x / ulp x)) * ulp x
      else if x < 0 then - (of_int (py_round (- x / ulp (- x))) * ulp (- x))
      else 0)"

text \<open>The rationals that are values of floats: rounding leaves them as they are.\<close>

definition is_double :: "rat \<Rightarrow> bool" where
  "is_double x \<longleftrightarrow> double_round x = x"

subsection \<open>_weighted_splitter in binary floating point\<close>

text \<open>
  The fraction of a round is a Python number: \<open>train_size\<close> and the renormalised
  \<open>validation_size\<close> are floats, \<open>test_size = 1\<close> is an int.
\<close>

datatype pynum = PyInt int | PyFloat rat

definition num_value :: "pynum \<Rightarrow> rat" where
  "num_value x = (case x of PyInt i \<Rightarrow> of_int i | PyFloat y \<Rightarrow> y)"

text \<open>
  \<open>round(frac * obj_len)\<close> in pandas. With a float fraction the length is converted to a
  float, the product is rounded to a float, and \<open>round\<close> takes the nearest integer, a tie
  to the even one; with an int fraction the product is exact.
\<close>

definition sample_size_f64 :: "pynum \<Rightarrow> nat \<Rightarrow> int" where
  "sample_size_f64 fraction obj_len =
     (case fraction of
        PyInt i \<Rightarrow> i * int obj_len
      | PyFloat x \<Rightarrow> py_round (double_round (x * double_round (of_nat obj_len))))"

text \<open>
  \<open>sample(frac=frac_size)\<close> with this sample size. numpy's \<open>choice\<close> rejects a negative
  size and, drawing without replacement, a size above the population.
\<close>

definition sample_f64 :: "'g sampler \<Rightarrow> 'g \<Rightarrow> pynum \<Rightarrow> 'a list \<Rightarrow> error + ('a list \<times> 'g)" where
  "sample_f64 choice g fraction rows =
     (if 1 < num_value fraction then
        Inl (ValueError ''Replace has to be set to True when upsampling the population frac > 1.'')
      else if num_value fraction < 0 then
        Inl (ValueError ''A negative number of rows requested. Please provide frac >= 0.'')
      else
        (let k = sample_size_f64 fraction (length rows)
         in if k < 0 then Inl (ValueError ''negative dimensions are not allowed'')
            else if int (length rows) < k then
              Inl (ValueError (''Cannot take a larger sample than population when ''
                                @ py_repr ''replace=False''))
            else
              (let (positions, g') = choice g (length rows) (nat k)
               in if \<forall>p \<in> set positions. p < length rows
                  then Inr (map (\<lambda>p. rows ! p) positions, g')
                  else Inl (LibraryError ''indices are out-of-bounds''))))"

text \<open>The inner and the outer loop, as above.\<close>

fun sample_relations_f64 ::
  "'g sampler \<Rightarrow> pynum \<Rightarrow> string list \<Rightarrow> 'i frame \<Rightarrow> 'g \<Rightarrow> error + ('i frame list \<times> 'i frame \<times> 'g)"
where
  "sample_relations_f64 choice frac_size [] data g = Inr ([], data, g)"
| "sample_relations_f64 choice frac_size (rel # rels) data g =
     (case sample_f64 choice g frac_size (filter (\<lambda>row. relation (snd row) = rel) data) of
        Inl e \<Rightarrow> Inl e
      | Inr (temp, g') \<Rightarrow>
          (case sample_relations_f64 choice frac_size rels
                  (filter (\<lambda>row. fst row \<notin> set (map fst temp)) data) g' of
             Inl e \<Rightarrow> Inl e
           | Inr (frames, data', g'') \<Rightarrow> Inr (temp # frames, data', g'')))"

fun split_rounds_f64 ::
  "'g sampler \<Rightarrow> pynum list \<Rightarrow> string list \<Rightarrow> 'i frame \<Rightarrow> 'g \<Rightarrow> error + (nat frame list \<times> 'g)"
where
  "split_rounds_f64 choice [] rels data g = Inr ([], g)"
| "split_rounds_f64 choice (frac_size # fracs) rels data g =
     (case sample_relations_f64 choice frac_size rels data g of
        Inl e \<Rightarrow> Inl e
      | Inr (frames, data', g') \<Rightarrow>
          (case pd_concat frames of
             Inl e \<Rightarrow> Inl e
           | Inr part \<Rightarrow>
               (case split_rounds_f64 choice fracs rels data' g' of
                  Inl e \<Rightarrow> Inl e
                | Inr (parts, g'') \<Rightarrow> Inr (part # parts, g''))))"

text \<open>
  \<open>validation_size / (1 - train_size)\<close>: the difference is rounded to a float, then the
  quotient is. Dividing by a difference that is zero raises.
\<close>

definition validation_fraction :: "rat \<Rightarrow> rat \<Rightarrow> rat" where
  "validation_fraction train_size validation_size =
     double_round (validation_size / double_round (1 - train_size))"

definition weighted_splitter_f64 ::
  "'g sampler \<Rightarrow> 'g \<Rightarrow> 'i frame \<Rightarrow> rat \<Rightarrow> rat \<Rightarrow> error + (nat frame list \<times> 'g)" where
  "weighted_splitter_f64 choice g edgelist train_size validation_size =
     (if double_round (1 - train_size) = 0 then Inl ZeroDivisionError
      else
        (let validation_size' = PyFloat (validation_fraction train_size validation_size);
             test_size = PyInt 1;
             data = drop_duplicates edgelist
         in split_rounds_f64 choice [PyFloat train_size, validation_size', test_size]
              (unique_relations edgelist) data g))"

text \<open>
  \<open>expected_calls_f64\<close> is the list of the calls of the generator in a whole run, as
  computed from the input alone: per round and relation type, in the order of iteration,
  the number of rows of the type still unassigned and the sample size for it.
\<close>

definition round_calls_f64 :: "pynum \<Rightarrow> string list \<Rightarrow> (string \<Rightarrow> nat) \<Rightarrow> (nat \<times> nat) list" where
  "round_calls_f64 fraction rels remaining =
     map (\<lambda>r. (remaining r, nat (sample_size_f64 fraction (remaining r)))) rels"

definition expected_calls_f64 :: "'i frame \<Rightarrow> rat \<Rightarrow> rat \<Rightarrow> (nat \<times> nat) list" where
  "expected_calls_f64 edgelist train_size validation_size =
     (let rels = unique_relations edgelist;
          f1 = PyFloat train_size;
          f2 = PyFloat (validation_fraction train_size validation_size);
          n0 = (\<lambda>r. count_relation r (drop_duplicates edgelist));
          n1 = (\<lambda>r. n0 r - nat (sample_size_f64 f1 (n0 r)));
          n2 = (\<lambda>r. n1 r - nat (sample_size_f64 f2 (n1 r)))
      in round_calls_f64 f1 rels n0 @ round_calls_f64 f2 rels n1 @ round_calls_f64 (PyInt 1) rels n2)"

subsection \<open>The external collaborators\<close>

text \<open>
  A two-dimensional numpy array is its number of columns and its rows. A trained PyKEEN
  model is the dictionary \<open>triples_factory.entity_to_id\<close>, in insertion order, and its list
  of entity representations, each already evaluated to an array.
\<close>

record 'v ndarray =
  shape1 :: nat
  array_rows :: "'v list list"

record 'v er_model =
  entity_to_id :: "(string \<times> nat) list"
  entity_representations :: "'v ndarray list"

record 'v pipeline_result =
  model :: "'v er_model"

datatype 'c hpo_arg = ArgNone | ArgPath string | ArgConfig 'c

text \<open>
  The libraries and the operating system act on a world \<open>'w\<close> (the file system and
  numpy's global generator), passed through every call: \<open>random_choice\<close> is the generator behind
  \<open>DataFrame.sample\<close>, \<open>to_csv\<close> writes a frame without index and header,
  \<open>hpo_pipeline\<close> receives its keyword arguments in the order of the call, and
  \<open>pipeline_from_path\<close> receives the configuration path and the three data paths.
\<close>

record ('w, 'c, 'h, 'v) externals =
  random_choice :: "'w sampler"
  to_csv :: "'w \<Rightarrow> string \<Rightarrow> edge list \<Rightarrow> error + 'w"
  hpo_pipeline :: "'w \<Rightarrow> (string \<times> 'c hpo_arg) list \<Rightarrow> error + ('h \<times> 'w)"
  isdir :: "'w \<Rightarrow> string \<Rightarrow> bool"
  makedirs :: "'w \<Rightarrow> string \<Rightarrow> error + 'w"
  hpo_save_to_directory :: "'w \<Rightarrow> 'h \<Rightarrow> string \<Rightarrow> error + 'w"
  pipeline_from_path ::
    "'w \<Rightarrow> string \<Rightarrow> string \<Rightarrow> string \<Rightarrow> string \<Rightarrow> error + ('v pipeline_result \<times> 'w)"
  pipeline_save_to_directory :: "'w \<Rightarrow> 'v pipeline_result \<Rightarrow> string \<Rightarrow> bool \<Rightarrow> error + 'w"

text \<open>\<open>os.path.join\<close> of two components on a POSIX system.\<close>

definition path_join :: "string \<Rightarrow> string \<Rightarrow> string" where
  "path_join a b =
     (if b \<noteq> [] \<and> hd b = CHR ''/'' then b
      else if a = [] \<or> last a = CHR ''/'' then a @ b
      else a @ ''/'' @ b)"

subsection \<open>run_optimization and run_pipeline\<close>

text \<open>
  The keyword arguments of \<open>hpo_pipeline\<close> that are read from \<open>model_config\<close>, in the order
  of the call: the name of the argument and the key looked up.
\<close>

definition config_kwargs :: "(string \<times> string) list" where
  "config_kwargs =
     [(''model'', ''model''),
      (''model_kwargs'', ''model_kwargs''),
      (''model_kwargs_ranges'', ''model_kwargs_ranges''),
      (''loss'', ''loss_function''),
      (''loss_kwargs'', ''loss_kwargs''),
      (''loss_kwargs_ranges'', ''loss_kwargs_ranges''),
      (''regularizer'', ''regularizer''),
      (''optimizer'', ''optimizer''),
      (''optimizer_kwargs'', ''optimizer_kwargs''),
      (''optimizer_kwargs_ranges'', ''optimizer_kwargs_ranges''),
      (''training_loop'', ''training_loop''),
      (''training_loop_kwargs'', ''training_loop_kwargs''),
      (''training_kwargs'', ''training_kwargs''),
      (''training_kwargs_ranges'', ''training_kwargs_ranges''),
      (''negative_sampler'', ''negative_sampler''),
      (''negative_sampler_kwargs'', ''negative_sampler_kwargs''),
      (''negative_sampler_kwargs_ranges'', ''negative_sampler_kwargs_ranges''),
      (''stopper'', ''stopper''),
      (''stopper_kwargs'', ''stopper_kwargs''),
      (''evaluator'', ''evaluator''),
      (''evaluator_kwargs'', ''evaluator_kwargs''),
      (''evaluation_kwargs'', ''evaluation_kwargs''),
      (''n_trials'', ''n_trials''),
      (''timeout'', ''timeout''),
      (''metric'', ''metric''),
      (''direction'', ''direction''),
      (''sampler'', ''sampler''),
      (''pruner'', ''pruner'')]"

text \<open>
  Python evaluates the arguments of a call from left to right, so the subscripts
  \<open>model_config[key]\<close> are evaluated in the order written and the first missing key raises
  before \<open>hpo_pipeline\<close> is entered.
\<close>

fun read_config :: "(string \<rightharpoonup> 'c) \<Rightarrow> (string \<times> string) list \<Rightarrow> error + (string \<times> 'c hpo_arg) list"
where
  "read_config model_config [] = Inr []"
| "read_config model_config ((kw, key) # rest) =
     (case model_config key of
        None \<Rightarrow> Inl (KeyError key)
      | Some v \<Rightarrow>
          (case read_config model_config rest of
             Inl e \<Rightarrow> Inl e
           | Inr kvs \<Rightarrow> Inr ((kw, ArgConfig v) # kvs)))"

definition run_optimization ::
  "('w, 'c, 'h, 'v) externals \<Rightarrow> 'w \<Rightarrow> string \<times> string \<times> string \<Rightarrow> (string \<rightharpoonup> 'c) \<Rightarrow> string
     \<Rightarrow> error + 'w" where
  "run_optimization ext w dataset model_config out_dir =
     (case dataset of (train_path, validation_path, test_path) \<Rightarrow>
        (case read_config model_config config_kwargs of
           Inl e \<Rightarrow> Inl e
         | Inr config_args \<Rightarrow>
             (case hpo_pipeline ext w
                     ([(''dataset'', ArgNone), (''training'', ArgPath train_path),
                       (''testing'', ArgPath test_path), (''validation'', ArgPath validation_path)]
                      @ config_args) of
                Inl e \<Rightarrow> Inl e
              | Inr (hpo_results, w1) \<Rightarrow>
                  (let optimization_dir = path_join out_dir ''pykeen_results_optim''
                   in case (if \<not> isdir ext w1 optimization_dir
                            then makedirs ext w1 optimization_dir else Inr w1) of
                        Inl e \<Rightarrow> Inl e
                      | Inr w2 \<Rightarrow> hpo_save_to_directory ext w2 hpo_results optimization_dir))))"

definition run_pipeline ::
  "('w, 'c, 'h, 'v) externals \<Rightarrow> 'w \<Rightarrow> string \<times> string \<times> string \<Rightarrow> string
     \<Rightarrow> error + ('v pipeline_result \<times> 'w)" where
  "run_pipeline ext w dataset out_dir =
     (case dataset of (train_path, validation_path, test_path) \<Rightarrow>
        (let config_path =
               path_join (path_join (path_join out_dir ''pykeen_results_optim'') ''best_pipeline'')
                 ''pipeline_config.json''
         in case pipeline_from_path ext w config_path train_path test_path validation_path of
              Inl e \<Rightarrow> Inl e
            | Inr (pipeline_results, w1) \<Rightarrow>
                (let best_pipeline_dir = path_join out_dir ''pykeen_results_final''
                 in case (if \<not> isdir ext w1 best_pipeline_dir
                          then makedirs ext w1 best_pipeline_dir else Inr w1) of
                      Inl e \<Rightarrow> Inl e
                    | Inr w2 \<Rightarrow>
                        (case pipeline_save_to_directory ext w2 pipeline_results
                                best_pipeline_dir True of
                           Inl e \<Rightarrow> Inl e
                         | Inr w3 \<Rightarrow> Inr (pipeline_results, w3)))))"

subsection \<open>do_kge\<close>

text \<open>\<open>edgelist['label']\<close> and \<open>edgelist.drop(columns='label')\<close> raise when the column is absent.\<close>

definition label_column :: "('i, 'l) edgelist \<Rightarrow> error + ('i \<times> edge \<times> 'l option) list" where
  "label_column edgelist =
     (case edgelist of
        WithLabel rows \<Rightarrow> Inr rows
      | WithoutLabel rows \<Rightarrow> Inl (KeyError ''label''))"

definition drop_label :: "('i, 'l) edgelist \<Rightarrow> error + 'i frame" where
  "drop_label edgelist =
     (case edgelist of
        WithLabel rows \<Rightarrow> Inr (map (\<lambda>(i, e, l). (i, e)) rows)
      | WithoutLabel rows \<Rightarrow>
          Inl (KeyError (''['' @ py_repr ''label'' @ ''] not found in axis'')))"

text \<open>
  \<open>edgelist[~edgelist['label'].isna()]\<close> keeps the rows whose label is present;
  \<open>drop_duplicates('source')\<close> keeps the first row of every source; the dictionary
  comprehension stores the label of each remaining row under its source.
\<close>

definition notna_label :: "('i \<times> edge \<times> 'l option) list \<Rightarrow> ('i \<times> edge \<times> 'l) list" where
  "notna_label rows = List.map_filter (\<lambda>(i, e, l). map_option (\<lambda>v. (i, e, v)) l) rows"

definition unique_nodes :: "('i \<times> edge \<times> 'l option) list \<Rightarrow> ('i \<times> edge \<times> 'l) list" where
  "unique_nodes rows = drop_dups_by (\<lambda>(i, e, v). source e) [] (notna_label rows)"

definition label_mapping :: "('i \<times> edge \<times> 'l option) list \<Rightarrow> (string \<rightharpoonup> 'l)" where
  "label_mapping rows = fold (\<lambda>(i, e, v) m. m(source e \<mapsto> v)) (unique_nodes rows) Map.empty"

text \<open>Lines 45 to 69: the split, the three files, the optimization and the final training.\<close>

definition split_and_fit ::
  "('w, 'c, 'h, 'v) externals \<Rightarrow> 'w \<Rightarrow> 'i frame \<Rightarrow> string \<Rightarrow> (string \<rightharpoonup> 'c) \<Rightarrow> rat \<Rightarrow> rat
     \<Rightarrow> error + ('v er_model \<times> 'w)" where
  "split_and_fit ext w edgelist out model_config train_size validation_size =
     (case weighted_splitter (random_choice ext) w edgelist train_size validation_size of
        Inl e \<Rightarrow> Inl e
      | Inr (split, w1) \<Rightarrow>
          (case split of
             [train, validation, test] \<Rightarrow>
               (let train_path = path_join out ''train.edgelist'';
                    validation_path = path_join out ''validation.edgelist'';
                    test_path = path_join out ''test.edgelist''
                in case to_csv ext w1 train_path (map snd train) of
                     Inl e \<Rightarrow> Inl e
                   | Inr w2 \<Rightarrow>
                 (case to_csv ext w2 validation_path (map snd validation) of
                     Inl e \<Rightarrow> Inl e
                   | Inr w3 \<Rightarrow>
                 (case to_csv ext w3 test_path (map snd test) of
                     Inl e \<Rightarrow> Inl e
                   | Inr w4 \<Rightarrow>
                 (case run_optimization ext w4 (train_path, validation_path, test_path)
                         model_config out of
                     Inl e \<Rightarrow> Inl e
                   | Inr w5 \<Rightarrow>
                 (case run_pipeline ext w5 (train_path, validation_path, test_path) out of
                     Inl e \<Rightarrow> Inl e
                   | Inr (result, w6) \<Rightarrow> Inr (model result, w6))))))
           | _ \<Rightarrow> Inl (ValueError ''not enough values to unpack'')))"

text \<open>\<open>_model_to_numpy\<close>: the first entity representation; indexing an empty list raises.\<close>

definition model_to_numpy :: "'v er_model \<Rightarrow> error + 'v ndarray" where
  "model_to_numpy m =
     (case entity_representations m of
        [] \<Rightarrow> Inl (LibraryError ''list index out of range'')
      | r # _ \<Rightarrow> Inr r)"

text \<open>The decimal numeral of a natural number, as an f-string prints it.\<close>

fun str_nat :: "nat \<Rightarrow> string" where
  "str_nat n =
     (if n < 10 then [''0123456789'' ! n]
      else str_nat (n div 10) @ [''0123456789'' ! (n mod 10)])"

declare str_nat.simps [simp del]

text \<open>
  The embedding table: the names of its columns and its rows (\<open>entries\<close>), each the index
  label with the cells of the row. A cell is a number of the embedding, a label, or missing.
\<close>

datatype ('v, 'l) cell = Num 'v | Lab 'l | NaN

record ('v, 'l) table =
  columns :: "string list"
  entries :: "(string \<times> ('v, 'l) cell list) list"

text \<open>\<open>pd.DataFrame(data, columns, index)\<close> raises when the axes do not fit the array.\<close>

definition pd_DataFrame :: "'v ndarray \<Rightarrow> string list \<Rightarrow> string list \<Rightarrow> error + ('v, 'l) table" where
  "pd_DataFrame data cols idx =
     (if length idx \<noteq> length (array_rows data) \<or> length cols \<noteq> shape1 data
      then Inl (ValueError ''Shape of passed values does not match the indices'')
      else Inr \<lparr>columns = cols, entries = zip idx (map (map Num) (array_rows data))\<rparr>)"

text \<open>
  \<open>entity_to_id[x]\<close> inside the sort key; \<open>x\<close> is always a key of the dictionary there, so
  the second case is never reached.
\<close>

definition id_of :: "(string \<times> nat) list \<Rightarrow> string \<Rightarrow> nat" where
  "id_of d x = (case map_of d x of Some i \<Rightarrow> i | None \<Rightarrow> 0)"

text \<open>Lines 71 to 81.\<close>

definition embedding_frame :: "'v er_model \<Rightarrow> error + ('v, 'l) table" where
  "embedding_frame best_model =
     (case model_to_numpy best_model of
        Inl e \<Rightarrow> Inl e
      | Inr embedding_values \<Rightarrow>
          (let embedding_columns =
                 map (\<lambda>i. ''Component_'' @ str_nat i) [1..<shape1 embedding_values + 1];
               node_list = map fst (entity_to_id best_model);
               embedding_index = sort_key (id_of (entity_to_id best_model)) node_list
           in pd_DataFrame embedding_values embedding_columns embedding_index))"

text \<open>
  \<open>embedding.at[index, col] = v\<close>: a column that does not exist yet is added with missing
  cells, then the cell of every row labelled \<open>index\<close> is set.
\<close>

fun position_of :: "'a \<Rightarrow> 'a list \<Rightarrow> nat" where
  "position_of x [] = 0"
| "position_of x (y # ys) = (if x = y then 0 else Suc (position_of x ys))"

definition set_at :: "('v, 'l) table \<Rightarrow> string \<Rightarrow> string \<Rightarrow> ('v, 'l) cell \<Rightarrow> ('v, 'l) table" where
  "set_at t idx col v =
     (let t' = (if col \<in> set (columns t) then t
                else \<lparr>columns = columns t @ [col],
                      entries = map (\<lambda>(n, cs). (n, cs @ [NaN])) (entries t)\<rparr>);
          j = position_of col (columns t')
      in \<lparr>columns = columns t',
          entries = map (\<lambda>(n, cs). if n = idx then (n, cs[j := v]) else (n, cs)) (entries t')\<rparr>)"

text \<open>The loop \<open>for index in embedding.index: embedding.at[index, 'label'] = label_mapping[index]\<close>.\<close>

fun attach_labels :: "(string \<rightharpoonup> 'l) \<Rightarrow> string list \<Rightarrow> ('v, 'l) table \<Rightarrow> error + ('v, 'l) table" where
  "attach_labels mapping [] t = Inr t"
| "attach_labels mapping (idx # rest) t =
     (case mapping idx of
        None \<Rightarrow> Inl (KeyError idx)
      | Some l \<Rightarrow> attach_labels mapping rest (set_at t idx ''label'' (Lab l)))"

text \<open>
  Lines 83 to 88. The design table is the association list of its columns, its cells
  already strings (\<open>astype(str)\<close> leaves a string as it is).
\<close>

definition patients_only ::
  "(string \<times> string list) list \<Rightarrow> (string \<rightharpoonup> 'l) \<Rightarrow> ('v, 'l) table \<Rightarrow> error + ('v, 'l) table" where
  "patients_only design_norm_df mapping embedding =
     (case map_of design_norm_df ''FileName'' of
        None \<Rightarrow> Inl (KeyError ''FileName'')
      | Some file_names \<Rightarrow>
          (let kept = \<lparr>columns = columns embedding,
                       entries = filter (\<lambda>(n, cs). n \<in> set file_names) (entries embedding)\<rparr>
           in attach_labels mapping (map fst (entries kept)) kept))"

definition do_kge ::
  "('w, 'c, 'h, 'v) externals \<Rightarrow> 'w \<Rightarrow> ('i, 'l) edgelist \<Rightarrow> (string \<times> string list) list \<Rightarrow> string
     \<Rightarrow> (string \<rightharpoonup> 'c) \<Rightarrow> bool \<Rightarrow> rat \<Rightarrow> rat \<Rightarrow> error + (('v, 'l) table \<times> 'w)" where
  "do_kge ext w edgelist design out model_config return_patients train_size validation_size =
     (let design_norm_df = design
      in case label_column edgelist of
           Inl e \<Rightarrow> Inl e
         | Inr labelled \<Rightarrow>
             (case drop_label edgelist of
                Inl e \<Rightarrow> Inl e
              | Inr edges \<Rightarrow>
                  (case split_and_fit ext w edges out model_config train_size validation_size of
                     Inl e \<Rightarrow> Inl e
                   | Inr (best_model, w') \<Rightarrow>
                       (case embedding_frame best_model of
                          Inl e \<Rightarrow> Inl e
                        | Inr embedding \<Rightarrow>
                            if return_patients then
                              (case patients_only design_norm_df (label_mapping labelled)
                                      embedding of
                                 Inl e \<Rightarrow> Inl e
                               | Inr t \<Rightarrow> Inr (t, w'))
                            else Inr (embedding, w')))))"

text \<open>
  Externals for running \<open>do_kge\<close>: the world is the list of draws of \<open>stream_choice\<close>,
  every file operation succeeds, there is no directory yet, and the final training returns
  the given result.
\<close>

definition succeeding_externals :: "'v pipeline_result \<Rightarrow> (nat list, 'c, unit, 'v) externals" where
  "succeeding_externals result =
     \<lparr>random_choice = stream_choice,
      to_csv = (\<lambda>w path edges. Inr w),
      hpo_pipeline = (\<lambda>w kwargs. Inr ((), w)),
      isdir = (\<lambda>w path. False),
      makedirs = (\<lambda>w path. Inr w),
      hpo_save_to_directory = (\<lambda>w hpo_results path. Inr w),
      pipeline_from_path = (\<lambda>w config_path training testing validation. Inr (result, w)),
      pipeline_save_to_directory = (\<lambda>w pipeline_results path save_replicates. Inr w)\<rparr>"

section \<open>Properties of classify.py\<close>

lemma test_f1_micro_not_produced: "''test_f1_micro'' \<notin> set (sklearn_cv_keys cv_scoring)"
  by (simp add: sklearn_cv_keys_def cv_scoring_def)

lemma collect_scores_missing_f1:
  assumes "map_of cv_results ''test_accuracy'' = Some a"
    and "map_of cv_results ''test_f1_micro'' = None"
  shows "collect_scores cv_results scoring_metrics = Inl (KeyError ''test_f1_micro'')"
  using assms by (simp add: scoring_metrics_def dict_get_def)

lemma sklearn_keys_missing_f1:
  assumes "map fst cv_results = sklearn_cv_keys cv_scoring"
  shows "collect_scores cv_results scoring_metrics = Inl (KeyError ''test_f1_micro'')"
proof -
  have keys: "fst ` set cv_results = set (sklearn_cv_keys cv_scoring)"
    using assms by (metis set_map)
  have "''test_accuracy'' \<in> fst ` set cv_results"
    unfolding keys by (simp add: sklearn_cv_keys_def cv_scoring_def)
  then obtain a where a: "map_of cv_results ''test_accuracy'' = Some a"
    by (metis domD dom_map_of_conv_image_fst)
  have "''test_f1_micro'' \<notin> fst ` set cv_results"
    unfolding keys using test_f1_micro_not_produced by simp
  then have n: "map_of cv_results ''test_f1_micro'' = None"
    by (simp add: map_of_eq_None_iff)
  show ?thesis using collect_scores_missing_f1 [OF a n] .
qed

text \<open>
  Claim C5, as amended. For each of the four names \<open>logistic_regression\<close>,
  \<open>elastic_net\<close>, \<open>svm\<close> and \<open>random_forrest\<close>, \<open>get_classifier\<close> evaluates the
  constructor expression of its branch, with the positional arguments passed through and
  the keyword arguments of the source, and returns the estimator that scikit-learn builds
  or raises what scikit-learn raises; for every other name it raises
  \<open>ModuleNotFoundError\<close> with one fixed message, the same for every name, and has no
  default estimator.
\<close>

theorem get_classifier_cases:
  "get_classifier build ''logistic_regression'' args
     = build (LogisticRegression args [(''solver'', KwStr ''lbfgs'')])
   \<and> get_classifier build ''elastic_net'' args
     = build (LogisticRegression args
             [(''penalty'', KwStr ''elasticnet''), (''l1_ratio'', KwNum (1 / 2)),
              (''solver'', KwStr ''saga'')])
   \<and> get_classifier build ''svm'' args = build (SVC args [(''gamma'', KwStr ''scale'')])
   \<and> get_classifier build ''random_forrest'' args = build (RandomForestClassifier args [])
   \<and> (model_name \<notin> {''logistic_regression'', ''elastic_net'', ''svm'', ''random_forrest''}
        \<longrightarrow> get_classifier build model_name args
              = Inl (ModuleNotFoundError
                  ''The entered model was not found. Please check the model that was inputted''))"
  by (simp add: get_classifier_def not_found_message_def)

text \<open>With a scikit-learn whose constructors all succeed.\<close>

theorem get_classifier_cases_witness:
  "''decision_tree'' \<notin> {''logistic_regression'', ''elastic_net'', ''svm'', ''random_forrest''}
   \<and> get_classifier (Inr :: nat constructor_call \<Rightarrow> error + nat constructor_call)
        ''decision_tree'' []
        = Inl (ModuleNotFoundError
            ''The entered model was not found. Please check the model that was inputted'')
   \<and> get_classifier (Inr :: nat constructor_call \<Rightarrow> error + nat constructor_call) ''svm'' []
        = Inr (SVC [] [(''gamma'', KwStr ''scale'')])"
  using get_classifier_cases
    [of "Inr :: nat constructor_call \<Rightarrow> error + nat constructor_call" "[]" "''decision_tree''"]
  by simp

text \<open>
  Claim C5, as stated, fails: the message raised for \<open>not_a_model\<close> does not contain the
  offending name; and where the submodules of \<open>sklearn\<close> are not loaded, the name \<open>svm\<close>
  gives no estimator but the error of the attribute lookup.
\<close>

theorem get_classifier_message_counterexample:
  "get_classifier (Inr :: nat constructor_call \<Rightarrow> error + nat constructor_call)
     ''not_a_model'' []
     = Inl (ModuleNotFoundError
         ''The entered model was not found. Please check the model that was inputted'')
   \<and> \<not> sublist ''not_a_model''
         ''The entered model was not found. Please check the model that was inputted''
   \<and> get_classifier
       (submodules_not_loaded :: nat constructor_call \<Rightarrow> error + nat constructor_call) ''svm'' []
     = Inl (LibraryError ''AttributeError'')"
proof -
  have "CHR ''_'' \<in> set ''not_a_model''" by simp
  moreover have "CHR ''_'' \<notin>
      set ''The entered model was not found. Please check the model that was inputted''"
    by simp
  ultimately have "\<not> sublist ''not_a_model''
      ''The entered model was not found. Please check the model that was inputted''"
    using set_mono_sublist by blast
  then show ?thesis
    by (simp add: get_classifier_def not_found_message_def submodules_not_loaded_def)
qed

text \<open>
  Claim C6. With \<open>model_name = svm\<close>, whenever the estimator is built and
  \<open>cross_validate\<close> returns a result whose keys are the ones scikit-learn produces for the
  scorer list the function passes, \<open>do_classification\<close> raises \<open>KeyError\<close> on
  \<open>test_f1_micro\<close>: the function asks for the scorer \<open>f1\<close>, whose scores are stored under
  \<open>test_f1\<close>, and then reads \<open>test_f1_micro\<close>. And when building the estimator or
  \<open>cross_validate\<close> raises, the call raises that error: with the keys scikit-learn
  produces, the call never returns the result.
\<close>

theorem do_classification_svm_raises:
  "(build (SVC args [(''gamma'', KwStr ''scale'')]) = Inr estimator
      \<and> cross_validate estimator data labels 10 cv_scoring = Inr cv_results
      \<and> map fst cv_results = sklearn_cv_keys cv_scoring
     \<longrightarrow> do_classification build cross_validate render data labels ''svm'' outfile title args
           = Inl (KeyError ''test_f1_micro''))
   \<and> ((\<forall>m res. cross_validate m data labels 10 cv_scoring = Inr res
                 \<longrightarrow> map fst res = sklearn_cv_keys cv_scoring)
     \<longrightarrow> (\<exists>e. do_classification build cross_validate render data labels ''svm'' outfile
                  title args = Inl e))"
proof (intro conjI impI)
  assume a: "build (SVC args [(''gamma'', KwStr ''scale'')]) = Inr estimator
      \<and> cross_validate estimator data labels 10 cv_scoring = Inr cv_results
      \<and> map fst cv_results = sklearn_cv_keys cv_scoring"
  then have "collect_scores cv_results scoring_metrics = Inl (KeyError ''test_f1_micro'')"
    using sklearn_keys_missing_f1 by blast
  then show "do_classification build cross_validate render data labels ''svm'' outfile title args
           = Inl (KeyError ''test_f1_micro'')"
    using a by (simp add: do_classification_def get_classifier_def)
next
  assume k: "\<forall>m res. cross_validate m data labels 10 cv_scoring = Inr res
                 \<longrightarrow> map fst res = sklearn_cv_keys cv_scoring"
  show "\<exists>e. do_classification build cross_validate render data labels ''svm'' outfile
                  title args = Inl e"
  proof (cases "build (SVC args [(''gamma'', KwStr ''scale'')])")
    case (Inl e)
    then show ?thesis by (simp add: do_classification_def get_classifier_def)
  next
    case (Inr m)
    show ?thesis
    proof (cases "cross_validate m data labels 10 cv_scoring")
      case (Inl e)
      then show ?thesis using Inr by (simp add: do_classification_def get_classifier_def)
    next
      case r: (Inr res)
      then have "map fst res = sklearn_cv_keys cv_scoring" using k by blast
      then have "collect_scores res scoring_metrics = Inl (KeyError ''test_f1_micro'')"
        by (rule sklearn_keys_missing_f1)
      then show ?thesis using Inr r by (simp add: do_classification_def get_classifier_def)
    qed
  qed
qed

text \<open>
  A run in which every constructor succeeds and \<open>cross_validate\<close> returns ten scores
  under each of scikit-learn's keys, and a run in which the submodules are not loaded.
\<close>

theorem do_classification_svm_raises_witness:
  "do_classification
     (Inr :: nat constructor_call \<Rightarrow> error + nat constructor_call)
     (\<lambda>model data labels cv scoring.
        Inr (map (\<lambda>k. (k, replicate cv (1 :: rat))) (sklearn_cv_keys scoring)))
     (\<lambda>series title ticks outfile. None)
     [[0 :: int, 1], [1, 0]] [True, False] ''svm'' ''plot.png'' None []
   = Inl (KeyError ''test_f1_micro'')
   \<and> (\<exists>e. do_classification
          (submodules_not_loaded :: nat constructor_call \<Rightarrow> error + nat constructor_call)
          (\<lambda>model data labels cv scoring.
             Inr (map (\<lambda>k. (k, replicate cv (1 :: rat))) (sklearn_cv_keys scoring)))
          (\<lambda>series title ticks outfile. None)
          [[0 :: int, 1], [1, 0]] [True, False] ''svm'' ''plot.png'' None [] = Inl e)"
proof
  show "do_classification
     (Inr :: nat constructor_call \<Rightarrow> error + nat constructor_call)
     (\<lambda>model data labels cv scoring.
        Inr (map (\<lambda>k. (k, replicate cv (1 :: rat))) (sklearn_cv_keys scoring)))
     (\<lambda>series title ticks outfile. None)
     [[0 :: int, 1], [1, 0]] [True, False] ''svm'' ''plot.png'' None []
   = Inl (KeyError ''test_f1_micro'')"
    using do_classification_svm_raises
      [where build = "Inr :: nat constructor_call \<Rightarrow> error + nat constructor_call"
         and cross_validate = "\<lambda>model data labels cv scoring.
            Inr (map (\<lambda>k. (k, replicate cv (1 :: rat))) (sklearn_cv_keys scoring))"
         and render = "\<lambda>series title ticks outfile. None"
         and data = "[[0 :: int, 1], [1, 0]]" and labels = "[True, False]"
         and outfile = "''plot.png''" and title = None and args = "[]"
         and estimator = "SVC [] [(''gamma'', KwStr ''scale'')]"
         and cv_results = "map (\<lambda>k. (k, replicate 10 (1 :: rat))) (sklearn_cv_keys cv_scoring)"]
    by (simp add: comp_def)
  show "\<exists>e. do_classification
          (submodules_not_loaded :: nat constructor_call \<Rightarrow> error + nat constructor_call)
          (\<lambda>model data labels cv scoring.
             Inr (map (\<lambda>k. (k, replicate cv (1 :: rat))) (sklearn_cv_keys scoring)))
          (\<lambda>series title ticks outfile. None)
          [[0 :: int, 1], [1, 0]] [True, False] ''svm'' ''plot.png'' None [] = Inl e"
    using do_classification_svm_raises
      [where build = "submodules_not_loaded :: nat constructor_call \<Rightarrow> error + nat constructor_call"
         and cross_validate = "\<lambda>model data labels cv scoring.
            Inr (map (\<lambda>k. (k, replicate cv (1 :: rat))) (sklearn_cv_keys scoring))"
         and render = "\<lambda>series title ticks outfile. None"
         and data = "[[0 :: int, 1], [1, 0]]" and labels = "[True, False]"
         and outfile = "''plot.png''" and title = None and args = "[]"
         and estimator = "SVC [] [(''gamma'', KwStr ''scale'')]"
         and cv_results = "map (\<lambda>k. (k, replicate 10 (1 :: rat))) (sklearn_cv_keys cv_scoring)"]
    by (simp add: comp_def)
qed

section \<open>Properties of kge.py\<close>

subsection \<open>Deduplication keeps first occurrences\<close>

lemma drop_dups_by_keys:
  "set (map key (drop_dups_by key seen xs)) = key ` set xs - set seen"
  by (induction xs arbitrary: seen) auto

lemma drop_dups_by_distinct: "distinct (map key (drop_dups_by key seen xs))"
  by (induction xs arbitrary: seen) (auto simp: drop_dups_by_keys [simplified])

lemma drop_dups_by_find:
  "k \<notin> set seen \<Longrightarrow>
     find (\<lambda>x. key x = k) (drop_dups_by key seen xs) = find (\<lambda>x. key x = k) xs"
  by (induction xs arbitrary: seen) auto

lemma drop_dups_by_subset: "set (drop_dups_by key seen xs) \<subseteq> set xs"
  by (induction xs arbitrary: seen) auto

lemma drop_dups_by_distinct_other:
  "distinct (map f xs) \<Longrightarrow> distinct (map f (drop_dups_by key seen xs))"
proof (induction xs arbitrary: seen)
  case Nil
  then show ?case by simp
next
  case (Cons x xs)
  have "f x \<notin> f ` set (drop_dups_by key (key x # seen) xs)"
    using Cons.prems drop_dups_by_subset [of key "key x # seen" xs] by auto
  then show ?case using Cons by simp
qed

lemma unique_relations_set:
  "set (unique_relations edgelist) = (\<lambda>row. relation (snd row)) ` set edgelist"
  using drop_dups_by_keys [of "\<lambda>x. x" "[]" "map (\<lambda>row. relation (snd row)) edgelist"]
  by (simp add: unique_relations_def pd_unique_def)

lemma unique_relations_distinct: "distinct (unique_relations edgelist)"
  using drop_dups_by_distinct [of "\<lambda>x. x" "[]" "map (\<lambda>row. relation (snd row)) edgelist"]
  by (simp add: unique_relations_def pd_unique_def)

lemma unique_relations_sorted: "sorted (unique_relations edgelist)"
  by (simp add: unique_relations_def)


lemma drop_duplicates_distinct: "distinct (map snd (drop_duplicates edgelist))"
  by (simp add: drop_duplicates_def drop_dups_by_distinct)

lemma drop_duplicates_labels:
  "distinct (map fst edgelist) \<Longrightarrow> distinct (map fst (drop_duplicates edgelist))"
  by (simp add: drop_duplicates_def drop_dups_by_distinct_other)

lemma drop_duplicates_subset: "set (drop_duplicates edgelist) \<subseteq> set edgelist"
  by (simp add: drop_duplicates_def drop_dups_by_subset)

subsection \<open>Sample sizes and samples\<close>

lemma py_round_le: "x \<le> of_int n \<Longrightarrow> py_round x \<le> n"
proof -
  assume a: "x \<le> of_int n"
  have f: "\<lfloor>x\<rfloor> \<le> n" using a by (simp add: floor_le_iff)
  show ?thesis
  proof (cases "x - of_int \<lfloor>x\<rfloor> < 1 / 2")
    case True
    then show ?thesis using f by (simp add: py_round_def Let_def)
  next
    case False
    then have "of_int \<lfloor>x\<rfloor> < x" by linarith
    then have "of_int \<lfloor>x\<rfloor> < (of_int n :: rat)" using a by linarith
    then have "\<lfloor>x\<rfloor> < n" by simp
    then show ?thesis by (auto simp: py_round_def Let_def)
  qed
qed

lemma py_round_of_int: "py_round (of_int n) = n"
  by (simp add: py_round_def)





lemma pick_positions_valid:
  "k \<le> length remaining \<Longrightarrow> distinct remaining \<Longrightarrow>
     length (fst (pick_positions remaining g k)) = k
     \<and> distinct (fst (pick_positions remaining g k))
     \<and> set (fst (pick_positions remaining g k)) \<subseteq> set remaining"
proof (induction remaining g k rule: pick_positions.induct)
  case (1 remaining g)
  then show ?case by simp
next
  case (2 g k)
  then show ?case by simp
next
  case (3 r rs g k)
  let ?i = "(case g of [] \<Rightarrow> 0 | x # _ \<Rightarrow> x) mod length (r # rs)"
  let ?rest = "take ?i (r # rs) @ drop (Suc ?i) (r # rs)"
  have i: "?i < length (r # rs)" by simp
  have idd: "(r # rs) = take ?i (r # rs) @ (r # rs) ! ?i # drop (Suc ?i) (r # rs)"
    using i by (rule id_take_nth_drop)
  have d: "distinct (take ?i (r # rs) @ (r # rs) ! ?i # drop (Suc ?i) (r # rs))"
    using "3.prems"(2) idd by metis
  have dr: "distinct ?rest" and ni: "(r # rs) ! ?i \<notin> set ?rest" using d by auto
  have sr: "set ?rest \<subseteq> set (r # rs)"
    by (metis set_take_subset set_drop_subset set_append Un_least)
  have lr: "k \<le> length ?rest" using "3.prems"(1) i by simp
  obtain ps g' where p: "pick_positions ?rest (tl g) k = (ps, g')"
    by (cases "pick_positions ?rest (tl g) k")
  have ih: "length ps = k \<and> distinct ps \<and> set ps \<subseteq> set ?rest"
    using "3.IH" [OF refl lr dr] p by simp
  have res: "fst (pick_positions (r # rs) g (Suc k)) = (r # rs) ! ?i # ps"
    using p by (simp add: Let_def)
  have "(r # rs) ! ?i \<in> set (r # rs)" using i by (rule nth_mem)
  then show ?case unfolding res using ih ni sr by auto
qed

lemma stream_choice_valid: "valid_sampler stream_choice"
proof -
  have "length (fst (pick_positions [0..<n] g k)) = k
      \<and> distinct (fst (pick_positions [0..<n] g k))
      \<and> (\<forall>p \<in> set (fst (pick_positions [0..<n] g k)). p < n)" if "k \<le> n" for g n k
    using pick_positions_valid [of k "[0..<n]" g] that by auto
  then show ?thesis unfolding valid_sampler_def stream_choice_def by blast
qed

subsection \<open>One round of the splitter\<close>

text \<open>
  With pairwise different index labels, removing the rows whose label is among the labels
  of the sample removes exactly the sampled rows.
\<close>

lemma remove_by_label:
  assumes "distinct (map fst data)" "set temp \<subseteq> set data"
  shows "filter (\<lambda>row. fst row \<notin> set (map fst temp)) data = filter (\<lambda>row. row \<notin> set temp) data"
proof (rule filter_cong [OF refl])
  fix row assume r: "row \<in> set data"
  have inj: "inj_on fst (set data)" using assms(1) by (simp add: distinct_map)
  show "(fst row \<notin> set (map fst temp)) = (row \<notin> set temp)"
  proof
    assume "fst row \<notin> set (map fst temp)" then show "row \<notin> set temp" by auto
  next
    assume n: "row \<notin> set temp"
    show "fst row \<notin> set (map fst temp)"
    proof
      assume "fst row \<in> set (map fst temp)"
      then obtain t where t: "t \<in> set temp" "fst t = fst row" by auto
      then have "t = row" using inj r assms(2) by (auto dest: inj_onD)
      then show False using t n by simp
    qed
  qed
qed


lemma count_relation_snd':
  "count_relation r xs = length (filter (\<lambda>e. relation e = r) (map snd xs))"
  by (simp add: count_relation_def filter_map comp_def)

lemma length_filter_removed:
  assumes "distinct data" "distinct F" "set F \<subseteq> set data"
  shows "length (filter P (filter (\<lambda>x. x \<notin> set F) data)) = length (filter P data) - length (filter P F)"
proof -
  have "length (filter P data)
      = length (filter (\<lambda>x. x \<in> set F) (filter P data)) + length (filter (\<lambda>x. x \<notin> set F) (filter P data))"
    using sum_length_filter_compl [of "\<lambda>x. x \<in> set F" "filter P data"] by simp
  moreover have "length (filter (\<lambda>x. x \<in> set F) (filter P data)) = length (filter P F)"
  proof -
    have "set (filter (\<lambda>x. x \<in> set F) (filter P data)) = set (filter P F)"
      using assms(3) by auto
    moreover have "distinct (filter (\<lambda>x. x \<in> set F) (filter P data))" "distinct (filter P F)"
      using assms(1,2) by simp_all
    ultimately show ?thesis
      using distinct_card [of "filter (\<lambda>x. x \<in> set F) (filter P data)"] distinct_card [of "filter P F"]
      by presburger
  qed
  moreover have "filter (\<lambda>x. x \<notin> set F) (filter P data) = filter P (filter (\<lambda>x. x \<notin> set F) data)"
    by (simp add: conj_commute)
  ultimately show ?thesis by simp
qed


lemma full_round_takes_all:
  assumes "distinct data" "distinct F" "set F \<subseteq> set data"
    and "\<forall>r. count_relation r F = count_relation r data"
  shows "set F = set data"
proof
  show "set F \<subseteq> set data" by fact
  show "set data \<subseteq> set F"
  proof
    fix row assume rd: "row \<in> set data"
    let ?P = "\<lambda>x :: 'a \<times> edge. relation (snd x) = relation (snd row)"
    have "set (filter ?P F) \<subseteq> set (filter ?P data)" using assms(3) by auto
    moreover have "card (set (filter ?P F)) = card (set (filter ?P data))"
    proof -
      have "length (filter ?P F) = length (filter ?P data)"
        using assms(4) unfolding count_relation_def by blast
      moreover have "distinct (filter ?P F)" "distinct (filter ?P data)"
        using assms(1,2) by simp_all
      ultimately show ?thesis using distinct_card [of "filter ?P F"] distinct_card [of "filter ?P data"]
        by presburger
    qed
    ultimately have "set (filter ?P F) = set (filter ?P data)"
      by (simp add: card_subset_eq)
    then show "row \<in> set F" using rd by auto
  qed
qed

lemma pd_concat_ok:
  "frames \<noteq> [] \<Longrightarrow> \<exists>part. pd_concat frames = Inr part \<and> map snd part = map snd (concat frames)"
  by (simp add: pd_concat_def)

subsection \<open>The three rounds\<close>



subsection \<open>The splits partition the deduplicated edgelist\<close>



subsection \<open>Rounding to binary64\<close>

text \<open>
  What the splitter needs of the rounding: it is monotone on the non-negative numbers,
  it leaves 0, 1 and every natural number below \<open>2^53\<close> as they are, and the difference
  \<open>1 - x\<close> of a float \<open>x < 1\<close> does not round to zero.
\<close>

lemma py_round_ge: "of_int n \<le> x \<Longrightarrow> n \<le> py_round x"
proof -
  assume "of_int n \<le> x"
  then have "n \<le> \<lfloor>x\<rfloor>" by (simp add: le_floor_iff)
  then show ?thesis by (auto simp: py_round_def Let_def)
qed

lemma py_round_mono: "x \<le> y \<Longrightarrow> py_round x \<le> py_round y"
proof -
  assume a: "x \<le> y"
  have fl: "\<lfloor>x\<rfloor> \<le> \<lfloor>y\<rfloor>" using a by (rule floor_mono)
  show ?thesis
  proof (cases "\<lfloor>x\<rfloor> = \<lfloor>y\<rfloor>")
    case True
    have "x - of_int \<lfloor>y\<rfloor> \<le> y - of_int \<lfloor>y\<rfloor>" using a by simp
    then show ?thesis using True by (auto simp: py_round_def Let_def)
  next
    case False
    then have "\<lfloor>x\<rfloor> + 1 \<le> \<lfloor>y\<rfloor>" using fl by simp
    moreover have "py_round x \<le> \<lfloor>x\<rfloor> + 1"
      by (rule py_round_le) linarith
    moreover have "\<lfloor>y\<rfloor> \<le> py_round y"
      by (rule py_round_ge) simp
    ultimately show ?thesis by linarith
  qed
qed

lemma bitlen_pos: "0 < a \<Longrightarrow> 1 \<le> bitlen a"
  using bitlen_eq_zero_iff [of a] bitlen_nonneg [of a] by linarith

lemma bitlen_powi_bounds:
  assumes "0 < a"
  shows "2 powi (bitlen a - 1) \<le> (of_int a :: rat)" and "(of_int a :: rat) < 2 powi bitlen a"
proof -
  have l: "1 \<le> bitlen a" using assms by (rule bitlen_pos)
  have b: "2 ^ nat (bitlen a - 1) \<le> a" "a < 2 ^ nat (bitlen a)"
    using bitlen_bounds [OF assms] by simp_all
  have "(of_int (2 ^ nat (bitlen a - 1)) :: rat) \<le> of_int a" using b(1) by (simp only: of_int_le_iff)
  then show "2 powi (bitlen a - 1) \<le> (of_int a :: rat)" using l by (simp add: power_int_def)
  have "(of_int a :: rat) < of_int (2 ^ nat (bitlen a))" using b(2) by (simp only: of_int_less_iff)
  then show "(of_int a :: rat) < 2 powi bitlen a" using l by (simp add: power_int_def)
qed

lemma binary_exponent_bounds:
  assumes "0 < x"
  shows "2 powi binary_exponent x \<le> x" and "x < 2 powi (binary_exponent x + 1)"
proof -
  obtain a b where q: "quotient_of x = (a, b)" by (cases "quotient_of x")
  have bp: "0 < b" using q by (rule quotient_of_denom_pos)
  have xe: "x = of_int a / of_int b" using q by (rule quotient_of_div)
  have ap: "0 < a" using assms bp xe by (simp add: zero_less_divide_iff)
  have xb: "x * of_int b = of_int a" using xe bp by simp
  let ?d = "bitlen a - bitlen b"
  have bpos: "(0 :: rat) < of_int b" using bp by simp
  have up: "x < 2 powi (?d + 1)"
  proof -
    have "x * 2 powi (bitlen b - 1) \<le> x * of_int b"
      using bitlen_powi_bounds(1) [OF bp] assms by (simp add: mult_left_mono)
    also have "\<dots> < 2 powi bitlen a" unfolding xb by (rule bitlen_powi_bounds(2) [OF ap])
    finally have "x < 2 powi bitlen a / 2 powi (bitlen b - 1)"
      by (simp add: pos_less_divide_eq)
    also have "\<dots> = 2 powi (bitlen a - (bitlen b - 1))" by (simp add: power_int_diff)
    finally show ?thesis by (simp add: algebra_simps)
  qed
  have lo: "2 powi (?d - 1) < x"
  proof -
    have "2 powi (bitlen a - 1) \<le> x * of_int b"
      unfolding xb by (rule bitlen_powi_bounds(1) [OF ap])
    also have "\<dots> < x * 2 powi bitlen b"
      using bitlen_powi_bounds(2) [OF bp] assms by (simp add: mult_strict_left_mono)
    finally have "2 powi (bitlen a - 1) / 2 powi bitlen b < x"
      by (simp add: pos_divide_less_eq)
    moreover have "2 powi (bitlen a - 1) / 2 powi bitlen b = (2 :: rat) powi (bitlen a - 1 - bitlen b)"
      by (simp add: power_int_diff)
    ultimately show ?thesis by (simp add: algebra_simps)
  qed
  have e: "binary_exponent x = (if 2 powi ?d \<le> x then ?d else ?d - 1)"
    using q by (simp add: binary_exponent_def)
  show "2 powi binary_exponent x \<le> x" using lo unfolding e by auto
  show "x < 2 powi (binary_exponent x + 1)" using up unfolding e by auto
qed

lemma powi_less_imp: "(2 :: rat) powi m < 2 powi n \<Longrightarrow> m < n"
proof (rule ccontr)
  assume a: "(2 :: rat) powi m < 2 powi n" and "\<not> m < n"
  then have "n \<le> m" by simp
  then have "(2 :: rat) powi n \<le> 2 powi m" by (rule power_int_increasing) simp
  then show False using a by simp
qed

lemma binary_exponent_unique:
  assumes "0 < x" "2 powi e \<le> x" "x < 2 powi (e + 1)"
  shows "binary_exponent x = e"
proof -
  have "(2 :: rat) powi binary_exponent x < 2 powi (e + 1)"
    using binary_exponent_bounds(1) [OF assms(1)] assms(3) by simp
  then have "binary_exponent x < e + 1" by (rule powi_less_imp)
  moreover have "(2 :: rat) powi e < 2 powi (binary_exponent x + 1)"
    using binary_exponent_bounds(2) [OF assms(1)] assms(2) by simp
  then have "e < binary_exponent x + 1" by (rule powi_less_imp)
  ultimately show ?thesis by simp
qed

lemma binary_exponent_mono:
  assumes "0 < x" "x \<le> y"
  shows "binary_exponent x \<le> binary_exponent y"
proof -
  have y: "0 < y" using assms by simp
  have "(2 :: rat) powi binary_exponent x < 2 powi (binary_exponent y + 1)"
    using binary_exponent_bounds(1) [OF assms(1)] binary_exponent_bounds(2) [OF y] assms(2)
    by simp
  then have "binary_exponent x < binary_exponent y + 1" by (rule powi_less_imp)
  then show ?thesis by simp
qed

lemma ulp_pos: "0 < ulp x"
  by (simp add: ulp_def)

lemma powi_add: "(2 :: rat) powi (a + b) = 2 powi a * 2 powi b"
  by (rule power_int_add) simp

lemma ulp_times_52: "of_int (2 ^ 52) * ulp x = 2 powi (max (binary_exponent x) (- 1022))"
proof -
  let ?e = "max (binary_exponent x) (- 1022)"
  have "(2 :: rat) powi (52 + (?e - 52)) = 2 powi 52 * 2 powi (?e - 52)" by (rule powi_add)
  moreover have "52 + (?e - 52) = ?e" by simp
  moreover have "(2 :: rat) powi 52 = of_int (2 ^ 52)" by simp
  ultimately have "(2 :: rat) powi ?e = of_int (2 ^ 52) * 2 powi (?e - 52)" by (simp only:)
  then show ?thesis unfolding ulp_def by (rule sym)
qed

lemma ulp_times_53: "of_int (2 ^ 53) * ulp x = 2 powi (max (binary_exponent x) (- 1022) + 1)"
proof -
  let ?e = "max (binary_exponent x) (- 1022)"
  have "(2 :: rat) powi (53 + (?e - 52)) = 2 powi 53 * 2 powi (?e - 52)" by (rule powi_add)
  moreover have "53 + (?e - 52) = ?e + 1" by simp
  moreover have "(2 :: rat) powi 53 = of_int (2 ^ 53)" by simp
  ultimately have "(2 :: rat) powi (?e + 1) = of_int (2 ^ 53) * 2 powi (?e - 52)" by (simp only:)
  then show ?thesis unfolding ulp_def by (rule sym)
qed

lemma double_round_pos: "0 < x \<Longrightarrow> double_round x = of_int (py_round (x / ulp x)) * ulp x"
  by (simp add: double_round_def)

lemma double_round_zero: "double_round 0 = 0"
  by (simp add: double_round_def)

lemma double_round_nonneg: "0 \<le> x \<Longrightarrow> 0 \<le> double_round x"
proof (cases "x = 0")
  case True
  then show ?thesis by (simp add: double_round_zero)
next
  case False
  assume "0 \<le> x"
  then have p: "0 < x" using False by simp
  have "of_int 0 \<le> x / ulp x" using p ulp_pos [of x] by simp
  then have "0 \<le> py_round (x / ulp x)" by (rule py_round_ge)
  then show ?thesis using ulp_pos [of x] by (simp add: double_round_pos [OF p])
qed

lemma double_round_upper:
  assumes "0 < x"
  shows "double_round x \<le> 2 powi (max (binary_exponent x) (- 1022) + 1)"
proof -
  let ?e = "max (binary_exponent x) (- 1022)"
  have "x < 2 powi (binary_exponent x + 1)" by (rule binary_exponent_bounds(2) [OF assms])
  also have "\<dots> \<le> 2 powi (?e + 1)" by (rule power_int_increasing) simp_all
  also have "\<dots> = of_int (2 ^ 53) * ulp x" by (rule ulp_times_53 [symmetric])
  finally have "x / ulp x < of_int (2 ^ 53)"
    using ulp_pos [of x] by (simp only: pos_divide_less_eq)
  then have "x / ulp x \<le> of_int (2 ^ 53)" by simp
  then have "py_round (x / ulp x) \<le> 2 ^ 53" by (rule py_round_le)
  then have "(of_int (py_round (x / ulp x)) :: rat) \<le> of_int (2 ^ 53)" by (simp only: of_int_le_iff)
  then have "of_int (py_round (x / ulp x)) * ulp x \<le> of_int (2 ^ 53) * ulp x"
    using ulp_pos [of x] by (simp only: mult_le_cancel_right_pos)
  then show ?thesis unfolding double_round_pos [OF assms] ulp_times_53 .
qed

lemma double_round_lower:
  assumes "0 < x" "- 1022 \<le> binary_exponent x"
  shows "2 powi binary_exponent x \<le> double_round x"
proof -
  have e: "max (binary_exponent x) (- 1022) = binary_exponent x" using assms(2) by simp
  have "of_int (2 ^ 52) * ulp x = 2 powi binary_exponent x"
    using ulp_times_52 [of x] unfolding e .
  also have "\<dots> \<le> x" by (rule binary_exponent_bounds(1) [OF assms(1)])
  finally have "of_int (2 ^ 52) \<le> x / ulp x"
    using ulp_pos [of x] by (simp only: pos_le_divide_eq)
  then have "2 ^ 52 \<le> py_round (x / ulp x)" by (rule py_round_ge)
  then have "(of_int (2 ^ 52) :: rat) \<le> of_int (py_round (x / ulp x))" by (simp only: of_int_le_iff)
  then have "of_int (2 ^ 52) * ulp x \<le> of_int (py_round (x / ulp x)) * ulp x"
    using ulp_pos [of x] by (simp only: mult_le_cancel_right_pos)
  then show ?thesis
    unfolding double_round_pos [OF assms(1)] using ulp_times_52 [of x] unfolding e by simp
qed

lemma double_round_mono:
  assumes "0 \<le> x" "x \<le> y"
  shows "double_round x \<le> double_round y"
proof (cases "x = 0")
  case True
  then show ?thesis using assms double_round_nonneg [of y] by (simp add: double_round_zero)
next
  case False
  then have px: "0 < x" using assms by simp
  then have py: "0 < y" using assms by simp
  let ?ex = "max (binary_exponent x) (- 1022)"
  let ?ey = "max (binary_exponent y) (- 1022)"
  have le: "?ex \<le> ?ey" using binary_exponent_mono [OF px assms(2)] by simp
  show ?thesis
  proof (cases "?ex = ?ey")
    case True
    then have u: "ulp x = ulp y" by (simp add: ulp_def)
    have "x / ulp y \<le> y / ulp y" using assms(2) ulp_pos [of y] by (simp add: divide_right_mono)
    then have "py_round (x / ulp y) \<le> py_round (y / ulp y)" by (rule py_round_mono)
    then have "(of_int (py_round (x / ulp y)) :: rat) \<le> of_int (py_round (y / ulp y))"
      by (simp only: of_int_le_iff)
    then have "of_int (py_round (x / ulp y)) * ulp y \<le> of_int (py_round (y / ulp y)) * ulp y"
      using ulp_pos [of y] by (simp only: mult_le_cancel_right_pos)
    then show ?thesis
      unfolding double_round_pos [OF px] double_round_pos [OF py] u .
  next
    case False
    then have lt: "?ex + 1 \<le> ?ey" using le by simp
    then have ey: "- 1022 \<le> binary_exponent y" "?ey = binary_exponent y"
      by (simp_all add: max_def split: if_splits)
    have "double_round x \<le> 2 powi (?ex + 1)" by (rule double_round_upper [OF px])
    also have "\<dots> \<le> 2 powi ?ey" using lt by (intro power_int_increasing) simp_all
    also have "\<dots> \<le> double_round y" unfolding ey(2) by (rule double_round_lower [OF py ey(1)])
    finally show ?thesis .
  qed
qed

lemma double_round_one: "double_round 1 = 1"
  by code_simp

lemma double_round_nat:
  assumes "n < 2 ^ 53"
  shows "double_round (of_nat n) = of_nat n"
proof (cases "n = 0")
  case True
  then show ?thesis by (simp add: double_round_zero)
next
  case False
  let ?x = "of_nat n :: rat"
  let ?e = "binary_exponent ?x"
  have p: "0 < ?x" using False by simp
  have "(of_nat n :: rat) < of_nat (2 ^ 53)" using assms by (simp only: of_nat_less_iff)
  moreover have "(of_nat (2 ^ 53) :: rat) = 2 powi 53" by simp
  ultimately have x53: "?x < 2 powi 53" by (simp only:)
  have "(2 :: rat) powi ?e \<le> ?x" by (rule binary_exponent_bounds(1) [OF p])
  also note x53
  finally have e53: "?e < 53" by (rule powi_less_imp)
  have "(1 :: rat) \<le> ?x" using False by simp
  also have "?x < 2 powi (?e + 1)" by (rule binary_exponent_bounds(2) [OF p])
  finally have "(2 :: rat) powi 0 < 2 powi (?e + 1)" by simp
  then have "0 < ?e + 1" by (rule powi_less_imp)
  then have e0: "0 \<le> ?e" by simp
  have m: "max ?e (- 1022) = ?e" using e0 by simp
  define k where "k = nat (52 - ?e)"
  have ke: "?e - 52 = - int k" using e53 by (simp add: k_def)
  have ue: "ulp ?x = 2 powi (- int k)" unfolding ulp_def m ke ..
  have "(2 :: rat) powi (- int k + int k) = 2 powi (- int k) * 2 powi int k" by (rule powi_add)
  then have u: "ulp ?x * 2 ^ k = 1" unfolding ue by simp
  have "?x = ?x * (ulp ?x * 2 ^ k)" unfolding u by simp
  then have "?x / ulp ?x = ?x * 2 ^ k" using ulp_pos [of ?x] by (simp add: field_simps)
  also have "\<dots> = of_int (int n * 2 ^ k)" by simp
  finally have r: "py_round (?x / ulp ?x) = int n * 2 ^ k" by (simp only: py_round_of_int)
  have "double_round ?x = of_int (int n * 2 ^ k) * ulp ?x"
    unfolding double_round_pos [OF p] r ..
  also have "\<dots> = ?x * (ulp ?x * 2 ^ k)" by simp
  finally show ?thesis unfolding u by simp
qed

lemma double_round_grid: "\<exists>m :: int. double_round x = of_int m * 2 powi (- 1074)"
proof -
  have g: "\<exists>m :: int. of_int k * ulp y = of_int m * 2 powi (- 1074)" for k :: int and y
  proof -
    let ?e = "max (binary_exponent y) (- 1022)"
    define j where "j = nat (?e + 1022)"
    have "0 \<le> ?e + 1022" by simp
    then have je: "?e - 52 = int j + (- 1074)" by (simp add: j_def)
    have "ulp y = 2 powi (int j + (- 1074))" unfolding ulp_def je ..
    also have "\<dots> = 2 powi int j * 2 powi (- 1074)" by (rule powi_add)
    also have "(2 :: rat) powi int j = of_int (2 ^ j)" by simp
    finally have "of_int k * ulp y = of_int (k * 2 ^ j) * 2 powi (- 1074)"
      by (simp only: of_int_mult mult.assoc)
    then show ?thesis by (rule exI)
  qed
  consider "0 < x" | "x < 0" | "x = 0" by linarith
  then show ?thesis
  proof cases
    case 1
    then show ?thesis using g [of "py_round (x / ulp x)" x] by (simp only: double_round_def if_True)
  next
    case 2
    obtain m :: int where m: "of_int (py_round (- x / ulp (- x))) * ulp (- x) = of_int m * 2 powi (- 1074)"
      using g [of "py_round (- x / ulp (- x))" "- x"] by blast
    have "double_round x = - (of_int (py_round (- x / ulp (- x))) * ulp (- x))"
      using 2 by (simp add: double_round_def)
    also have "\<dots> = of_int (- m) * 2 powi (- 1074)" unfolding m by simp
    finally show ?thesis by (rule exI)
  next
    case 3
    have "double_round x = of_int 0 * 2 powi (- 1074)" using 3 by (simp add: double_round_def)
    then show ?thesis by (rule exI)
  qed
qed

lemma smallest_subnormal: "double_round (2 powi (- 1074)) = 2 powi (- 1074)"
proof -
  let ?g = "(2 :: rat) powi (- 1074)"
  have gp: "0 < ?g" by (rule zero_less_power_int) simp
  have "?g < 2 powi (- 1074 + 1)" by (rule power_int_strict_increasing) simp_all
  then have e: "binary_exponent ?g = - 1074"
    using binary_exponent_unique [of ?g "- 1074"] gp by simp
  have u: "ulp ?g = ?g" unfolding ulp_def e by simp
  have "?g / ulp ?g = of_int 1" unfolding u using gp by simp
  then have "py_round (?g / ulp ?g) = 1" by (simp only: py_round_of_int)
  then show ?thesis unfolding double_round_pos [OF gp] unfolding u by simp
qed

lemma one_minus_double_pos:
  assumes "is_double t" "t < 1"
  shows "0 < double_round (1 - t)"
proof -
  let ?g = "(2 :: rat) powi (- 1074)"
  obtain m :: int where "double_round t = of_int m * ?g"
    using double_round_grid [of t] by blast
  then have m: "t = of_int m * ?g" using assms(1) unfolding is_double_def by simp
  have gp: "0 < ?g" by (rule zero_less_power_int) simp
  define K :: int where "K = 2 ^ 1074"
  have "(2 :: rat) powi (int 1074 + (- 1074)) = 2 powi int 1074 * ?g" by (rule powi_add)
  moreover have "(2 :: rat) powi int 1074 = of_int K" unfolding K_def power_int_of_nat by simp
  moreover have "(2 :: rat) powi (int 1074 + (- 1074)) = 1" by simp
  ultimately have one: "of_int K * ?g = 1" by (simp only:)
  have d: "1 - t = of_int (K - m) * ?g"
    unfolding m using one by (simp only: of_int_diff left_diff_distrib)
  have "0 < 1 - t" using assms(2) by simp
  then have "0 < (of_int (K - m) :: rat) * ?g" unfolding d .
  then have "(0 :: rat) < of_int (K - m)" using gp by (simp only: zero_less_mult_pos2)
  then have "1 \<le> (K - m :: int)" by simp
  then have "(of_int 1 :: rat) \<le> of_int (K - m)" by (simp only: of_int_le_iff)
  then have "of_int 1 * ?g \<le> of_int (K - m) * ?g"
    using gp by (simp only: mult_le_cancel_right_pos)
  then have "?g \<le> 1 - t" unfolding d by simp
  then have "double_round ?g \<le> double_round (1 - t)"
    using gp by (intro double_round_mono) simp_all
  then show ?thesis unfolding smallest_subnormal using gp by linarith
qed

subsection \<open>The rounds in binary64\<close>

text \<open>
  For a fraction between 0 and 1 and fewer than \<open>2^53\<close> rows the sample size is between
  0 and the number of rows, so that numpy draws; the int fraction 1 takes every row.
\<close>

lemma sample_size_f64_range:
  assumes "0 \<le> num_value f" "num_value f \<le> 1" "n < 2 ^ 53"
  shows "0 \<le> sample_size_f64 f n" and "sample_size_f64 f n \<le> int n"
proof -
  show "0 \<le> sample_size_f64 f n"
  proof (cases f)
    case (PyInt i)
    then show ?thesis using assms(1) by (simp add: sample_size_f64_def num_value_def)
  next
    case (PyFloat x)
    then have "0 \<le> x * double_round (of_nat n)"
      using assms(1) double_round_nonneg [of "of_nat n"] by (simp add: num_value_def)
    then have "of_int 0 \<le> double_round (x * double_round (of_nat n))"
      using double_round_nonneg by simp
    then have "0 \<le> py_round (double_round (x * double_round (of_nat n)))" by (rule py_round_ge)
    then show ?thesis using PyFloat by (simp add: sample_size_f64_def)
  qed
  show "sample_size_f64 f n \<le> int n"
  proof (cases f)
    case (PyInt i)
    then have "0 \<le> i" "i \<le> 1" using assms(1,2) by (simp_all add: num_value_def)
    then have "i * int n \<le> 1 * int n" by (intro mult_right_mono) simp_all
    then show ?thesis using PyInt by (simp add: sample_size_f64_def)
  next
    case (PyFloat x)
    then have x: "0 \<le> x" "x \<le> 1" using assms(1,2) by (simp_all add: num_value_def)
    have n: "double_round (of_nat n) = of_nat n" using assms(3) by (rule double_round_nat)
    have "x * of_nat n \<le> of_nat n" using x by (simp add: mult_left_le_one_le)
    moreover have "0 \<le> x * of_nat n" using x by simp
    ultimately have "double_round (x * of_nat n) \<le> double_round (of_nat n)"
      by (intro double_round_mono)
    then have "double_round (x * of_nat n) \<le> of_int (int n)" unfolding n by simp
    then have "py_round (double_round (x * of_nat n)) \<le> int n" by (rule py_round_le)
    then show ?thesis using PyFloat by (simp add: sample_size_f64_def n)
  qed
qed

lemma sample_size_f64_one: "sample_size_f64 (PyInt 1) n = int n"
  by (simp add: sample_size_f64_def)

lemma sample_size_f64_zero: "sample_size_f64 f 0 = 0"
  by (cases f) (simp_all add: sample_size_f64_def double_round_zero py_round_def)

lemma sample_f64_ok:
  assumes "valid_sampler ch" "0 \<le> num_value f" "num_value f \<le> 1" "length rs < 2 ^ 53"
  shows "\<exists>temp g'. sample_f64 ch g f rs = Inr (temp, g') \<and> set temp \<subseteq> set rs
            \<and> int (length temp) = sample_size_f64 f (length rs) \<and> (distinct rs \<longrightarrow> distinct temp)"
proof -
  let ?k = "sample_size_f64 f (length rs)"
  have k: "0 \<le> ?k" "?k \<le> int (length rs)"
    using sample_size_f64_range [OF assms(2-4)] by simp_all
  obtain ps g' where c: "ch g (length rs) (nat ?k) = (ps, g')"
    by (cases "ch g (length rs) (nat ?k)")
  have kn: "nat ?k \<le> length rs" using k by simp
  have v: "length ps = nat ?k" "distinct ps" "\<forall>p \<in> set ps. p < length rs"
    using assms(1) kn c unfolding valid_sampler_def by (metis fst_conv)+
  have s: "sample_f64 ch g f rs = Inr (map (\<lambda>p. rs ! p) ps, g')"
    using assms(2,3) k c v(3) by (simp add: sample_f64_def Let_def)
  have d: "distinct rs \<Longrightarrow> distinct (map (\<lambda>p. rs ! p) ps)"
    using v(2,3) by (simp add: distinct_map inj_on_def nth_eq_iff_index_eq)
  have l: "int (length (map (\<lambda>p. rs ! p) ps)) = ?k" using v(1) k by simp
  show ?thesis using s v(3) d l by auto
qed

lemma sample_relations_f64_inv:
  assumes "valid_sampler ch" "0 \<le> num_value f" "num_value f \<le> 1"
  shows "distinct (map fst data) \<Longrightarrow> length data < 2 ^ 53 \<Longrightarrow>
     \<exists>frames data' g'. sample_relations_f64 ch f rels data g = Inr (frames, data', g')
      \<and> length frames = length rels
      \<and> distinct (concat frames) \<and> set (concat frames) \<subseteq> set data
      \<and> data' = filter (\<lambda>row. row \<notin> set (concat frames)) data
      \<and> (\<forall>row \<in> set (concat frames). relation (snd row) \<in> set rels)
      \<and> (distinct rels \<longrightarrow> (\<forall>r \<in> set rels.
            int (length (filter (\<lambda>row. relation (snd row) = r) (concat frames)))
              = sample_size_f64 f (length (filter (\<lambda>row. relation (snd row) = r) data))))"
proof (induction rels arbitrary: data g)
  case Nil
  then show ?case by simp
next
  case (Cons rel rels)
  let ?rows = "filter (\<lambda>row. relation (snd row) = rel) data"
  have dd: "distinct data" using Cons.prems(1) by (simp add: distinct_map)
  have lr: "length ?rows < 2 ^ 53"
    using Cons.prems(2) length_filter_le [of "\<lambda>row. relation (snd row) = rel" data] by linarith
  obtain temp g1 where s: "sample_f64 ch g f ?rows = Inr (temp, g1)"
    and ts: "set temp \<subseteq> set ?rows" and tl: "int (length temp) = sample_size_f64 f (length ?rows)"
    and td: "distinct temp"
    using sample_f64_ok [OF assms(1-3) lr, of g] dd by auto
  let ?data1 = "filter (\<lambda>row. row \<notin> set temp) data"
  have tsd: "set temp \<subseteq> set data" using ts by auto
  have d1: "filter (\<lambda>row. fst row \<notin> set (map fst temp)) data = ?data1"
    using remove_by_label [OF Cons.prems(1) tsd] .
  have dd1: "distinct (map fst ?data1)" using Cons.prems(1) by (rule distinct_map_filter)
  have l1: "length ?data1 < 2 ^ 53"
    using Cons.prems(2) length_filter_le [of "\<lambda>row. row \<notin> set temp" data] by linarith
  obtain frames data' g' where
    r: "sample_relations_f64 ch f rels ?data1 g1 = Inr (frames, data', g')"
    and len: "length frames = length rels"
    and dis: "distinct (concat frames)" and sub: "set (concat frames) \<subseteq> set ?data1"
    and rest: "data' = filter (\<lambda>row. row \<notin> set (concat frames)) ?data1"
    and rl: "\<forall>row \<in> set (concat frames). relation (snd row) \<in> set rels"
    and cnt: "distinct rels \<longrightarrow> (\<forall>r \<in> set rels.
            int (length (filter (\<lambda>row. relation (snd row) = r) (concat frames)))
              = sample_size_f64 f (length (filter (\<lambda>row. relation (snd row) = r) ?data1)))"
    using Cons.IH [OF dd1 l1, of g1] by blast
  have res: "sample_relations_f64 ch f (rel # rels) data g = Inr (temp # frames, data', g')"
    using s r d1 by simp
  have trel: "\<forall>row \<in> set temp. relation (snd row) = rel" using ts by auto
  have c1: "distinct (concat (temp # frames))" using td dis sub by auto
  have c2: "set (concat (temp # frames)) \<subseteq> set data" using tsd sub by auto
  have c3: "data' = filter (\<lambda>row. row \<notin> set (concat (temp # frames))) data"
    unfolding rest by (simp add: conj_commute)
  have c4: "\<forall>row \<in> set (concat (temp # frames)). relation (snd row) \<in> set (rel # rels)"
    using trel rl by auto
  have c5: "\<forall>r \<in> set (rel # rels).
            int (length (filter (\<lambda>row. relation (snd row) = r) (concat (temp # frames))))
              = sample_size_f64 f (length (filter (\<lambda>row. relation (snd row) = r) data))"
    if dr: "distinct (rel # rels)"
  proof
    fix r assume rin: "r \<in> set (rel # rels)"
    show "int (length (filter (\<lambda>row. relation (snd row) = r) (concat (temp # frames))))
              = sample_size_f64 f (length (filter (\<lambda>row. relation (snd row) = r) data))"
    proof (cases "r = rel")
      case True
      have "filter (\<lambda>row. relation (snd row) = rel) (concat frames) = []"
        using rl dr by (auto simp: filter_empty_conv)
      moreover have "filter (\<lambda>row. relation (snd row) = rel) temp = temp"
        using trel by (simp add: filter_id_conv)
      ultimately show ?thesis using True tl by simp
    next
      case False
      then have rr: "r \<in> set rels" using rin by simp
      have "filter (\<lambda>row. relation (snd row) = r) temp = []"
        using trel False by (auto simp: filter_empty_conv)
      moreover have "filter (\<lambda>row. relation (snd row) = r) ?data1
                   = filter (\<lambda>row. relation (snd row) = r) data"
        using trel False by (auto simp: filter_filter intro!: filter_cong)
      ultimately show ?thesis using cnt rr dr by simp
    qed
  qed
  show ?case using res len c1 c2 c3 c4 c5 by (intro exI conjI impI) (assumption | simp)+
qed

lemma round_f64_inv:
  assumes "valid_sampler ch" "0 \<le> num_value f" "num_value f \<le> 1"
    and "distinct (map fst data)" "length data < 2 ^ 53" "distinct rels"
    and "\<forall>row \<in> set data. relation (snd row) \<in> set rels"
  shows "\<exists>frames data' g'. sample_relations_f64 ch f rels data g = Inr (frames, data', g')
      \<and> length frames = length rels
      \<and> distinct (concat frames) \<and> set (concat frames) \<subseteq> set data
      \<and> data' = filter (\<lambda>row. row \<notin> set (concat frames)) data
      \<and> (\<forall>r. int (count_relation r (concat frames)) = sample_size_f64 f (count_relation r data))
      \<and> (\<forall>r. count_relation r data' = count_relation r data - count_relation r (concat frames))"
proof -
  obtain frames data' g' where
    r: "sample_relations_f64 ch f rels data g = Inr (frames, data', g')"
    and len: "length frames = length rels"
    and dis: "distinct (concat frames)" and sub: "set (concat frames) \<subseteq> set data"
    and rest: "data' = filter (\<lambda>row. row \<notin> set (concat frames)) data"
    and cnt: "\<forall>r \<in> set rels.
            int (length (filter (\<lambda>row. relation (snd row) = r) (concat frames)))
              = sample_size_f64 f (length (filter (\<lambda>row. relation (snd row) = r) data))"
    using sample_relations_f64_inv [OF assms(1-5), of rels g] assms(6) by blast
  have dd: "distinct data" using assms(4) by (simp add: distinct_map)
  have c: "int (count_relation r (concat frames)) = sample_size_f64 f (count_relation r data)" for r
  proof (cases "r \<in> set rels")
    case True
    then show ?thesis using cnt by (simp add: count_relation_def)
  next
    case False
    then have "filter (\<lambda>row. relation (snd row) = r) data = []"
      using assms(7) by (auto simp: filter_empty_conv)
    moreover have "filter (\<lambda>row. relation (snd row) = r) (concat frames) = []"
      using assms(7) sub False by (auto simp: filter_empty_conv)
    ultimately show ?thesis by (simp add: count_relation_def sample_size_f64_zero)
  qed
  have c': "count_relation r data' = count_relation r data - count_relation r (concat frames)" for r
    unfolding count_relation_def rest using length_filter_removed [OF dd dis sub] .
  show ?thesis
    apply (rule exI [of _ frames], rule exI [of _ data'], rule exI [of _ g'])
    using r len dis sub rest c c' by simp
qed

lemma three_rounds_f64:
  assumes v: "valid_sampler ch" and f1: "0 \<le> num_value f1" "num_value f1 \<le> 1"
    and f2: "0 \<le> num_value f2" "num_value f2 \<le> 1"
    and dl: "distinct (map fst data)" and ln: "length data < 2 ^ 53"
    and dr: "distinct rels" and ne: "rels \<noteq> []"
    and rl: "\<forall>row \<in> set data. relation (snd row) \<in> set rels"
  shows "\<exists>F1 F2 F3 p1 p2 p3 g'.
      split_rounds_f64 ch [f1, f2, PyInt 1] rels data g = Inr ([p1, p2, p3], g')
      \<and> map snd p1 = map snd F1 \<and> map snd p2 = map snd F2 \<and> map snd p3 = map snd F3
      \<and> distinct (F1 @ F2 @ F3) \<and> set (F1 @ F2 @ F3) = set data
      \<and> (\<forall>r. int (count_relation r F1) = sample_size_f64 f1 (count_relation r data))
      \<and> (\<forall>r. int (count_relation r F2)
               = sample_size_f64 f2 (count_relation r data - count_relation r F1))
      \<and> (\<forall>r. count_relation r F3 = count_relation r data - count_relation r F1 - count_relation r F2)"
proof -
  obtain fr1 data1 g1 where
    r1: "sample_relations_f64 ch f1 rels data g = Inr (fr1, data1, g1)"
    and l1: "length fr1 = length rels"
    and d1: "distinct (concat fr1)" and s1: "set (concat fr1) \<subseteq> set data"
    and e1: "data1 = filter (\<lambda>row. row \<notin> set (concat fr1)) data"
    and c1: "\<forall>r. int (count_relation r (concat fr1)) = sample_size_f64 f1 (count_relation r data)"
    and k1: "\<forall>r. count_relation r data1 = count_relation r data - count_relation r (concat fr1)"
    using round_f64_inv [OF v f1 dl ln dr rl, of g] by blast
  have dl1: "distinct (map fst data1)" unfolding e1 using dl by (rule distinct_map_filter)
  have ln1: "length data1 < 2 ^ 53"
    unfolding e1 using ln length_filter_le [of "\<lambda>row. row \<notin> set (concat fr1)" data] by linarith
  have rl1: "\<forall>row \<in> set data1. relation (snd row) \<in> set rels" unfolding e1 using rl by simp
  obtain fr2 data2 g2 where
    r2: "sample_relations_f64 ch f2 rels data1 g1 = Inr (fr2, data2, g2)"
    and l2: "length fr2 = length rels"
    and d2: "distinct (concat fr2)" and s2: "set (concat fr2) \<subseteq> set data1"
    and e2: "data2 = filter (\<lambda>row. row \<notin> set (concat fr2)) data1"
    and c2: "\<forall>r. int (count_relation r (concat fr2)) = sample_size_f64 f2 (count_relation r data1)"
    and k2: "\<forall>r. count_relation r data2 = count_relation r data1 - count_relation r (concat fr2)"
    using round_f64_inv [OF v f2 dl1 ln1 dr rl1, of g1] by blast
  have dl2: "distinct (map fst data2)" unfolding e2 using dl1 by (rule distinct_map_filter)
  have ln2: "length data2 < 2 ^ 53"
    unfolding e2 using ln1 length_filter_le [of "\<lambda>row. row \<notin> set (concat fr2)" data1] by linarith
  have rl2: "\<forall>row \<in> set data2. relation (snd row) \<in> set rels" unfolding e2 using rl1 by simp
  have one: "0 \<le> num_value (PyInt 1)" "num_value (PyInt 1) \<le> 1" by (simp_all add: num_value_def)
  obtain fr3 data3 g3 where
    r3: "sample_relations_f64 ch (PyInt 1) rels data2 g2 = Inr (fr3, data3, g3)"
    and l3: "length fr3 = length rels"
    and d3: "distinct (concat fr3)" and s3: "set (concat fr3) \<subseteq> set data2"
    and c3: "\<forall>r. int (count_relation r (concat fr3)) = sample_size_f64 (PyInt 1) (count_relation r data2)"
    using round_f64_inv [OF v one dl2 ln2 dr rl2, of g2] by blast
  have c3': "\<forall>r. count_relation r (concat fr3) = count_relation r data2"
    using c3 by (simp add: sample_size_f64_one)
  have dd2: "distinct data2" using dl2 by (simp add: distinct_map)
  have all3: "set (concat fr3) = set data2"
    using full_round_takes_all [OF dd2 d3 s3 c3'] .
  have n1: "fr1 \<noteq> []" and n2: "fr2 \<noteq> []" and n3: "fr3 \<noteq> []"
    using ne l1 l2 l3 by auto
  obtain p1 where p1: "pd_concat fr1 = Inr p1" "map snd p1 = map snd (concat fr1)"
    using pd_concat_ok [OF n1] by blast
  obtain p2 where p2: "pd_concat fr2 = Inr p2" "map snd p2 = map snd (concat fr2)"
    using pd_concat_ok [OF n2] by blast
  obtain p3 where p3: "pd_concat fr3 = Inr p3" "map snd p3 = map snd (concat fr3)"
    using pd_concat_ok [OF n3] by blast
  have run: "split_rounds_f64 ch [f1, f2, PyInt 1] rels data g = Inr ([p1, p2, p3], g3)"
    using r1 r2 r3 p1(1) p2(1) p3(1) by simp
  have sd1: "set data1 = set data - set (concat fr1)" unfolding e1 by auto
  have sd2: "set data2 = set data1 - set (concat fr2)" unfolding e2 by auto
  have dis: "distinct (concat fr1 @ concat fr2 @ concat fr3)"
    using d1 d2 d3 s2 all3 sd1 sd2 by auto
  have un: "set (concat fr1 @ concat fr2 @ concat fr3) = set data"
    using s1 s2 all3 sd1 sd2 by auto
  have k: "\<forall>r. int (count_relation r (concat fr2))
             = sample_size_f64 f2 (count_relation r data - count_relation r (concat fr1))"
    using c2 k1 by simp
  have k': "\<forall>r. count_relation r (concat fr3)
             = count_relation r data - count_relation r (concat fr1) - count_relation r (concat fr2)"
    using c3' k2 k1 by simp
  show ?thesis
    apply (rule exI [of _ "concat fr1"], rule exI [of _ "concat fr2"], rule exI [of _ "concat fr3"])
    apply (rule exI [of _ p1], rule exI [of _ p2], rule exI [of _ p3], rule exI [of _ g3])
    using run p1(2) p2(2) p3(2) dis un c1 k k' by simp
qed

lemma validation_fraction_range:
  assumes "is_double train_size" "is_double validation_size"
    and "train_size < 1" "0 < validation_size" "validation_size < 1 - train_size"
  shows "double_round (1 - train_size) \<noteq> 0"
    and "0 \<le> validation_fraction train_size validation_size"
    and "validation_fraction train_size validation_size \<le> 1"
proof -
  let ?d = "double_round (1 - train_size)"
  have d: "0 < ?d" using assms(1,3) by (rule one_minus_double_pos)
  then show "?d \<noteq> 0" by simp
  have "double_round validation_size \<le> ?d"
    using assms(4,5) by (intro double_round_mono) simp_all
  then have vd: "validation_size \<le> ?d" using assms(2) by (simp add: is_double_def)
  have q: "0 \<le> validation_size / ?d" "validation_size / ?d \<le> 1"
    using vd d assms(4) by simp_all
  show "0 \<le> validation_fraction train_size validation_size"
    unfolding validation_fraction_def using q(1) by (rule double_round_nonneg)
  have "double_round (validation_size / ?d) \<le> double_round 1"
    using q by (intro double_round_mono)
  then show "validation_fraction train_size validation_size \<le> 1"
    unfolding validation_fraction_def double_round_one .
qed

lemma weighted_splitter_f64_rounds:
  assumes v: "valid_sampler choice" and dl: "distinct (map fst edgelist)" and ne: "edgelist \<noteq> []"
    and ln: "length edgelist < 2 ^ 53"
    and dt: "is_double train_size" and dv: "is_double validation_size"
    and t: "0 < train_size" "train_size < 1"
    and vs: "0 < validation_size" "validation_size < 1 - train_size"
  shows "\<exists>F1 F2 F3 train validation test g'.
      weighted_splitter_f64 choice g edgelist train_size validation_size
        = Inr ([train, validation, test], g')
      \<and> map snd train = map snd F1 \<and> map snd validation = map snd F2 \<and> map snd test = map snd F3
      \<and> distinct (F1 @ F2 @ F3) \<and> set (F1 @ F2 @ F3) = set (drop_duplicates edgelist)
      \<and> (\<forall>r. int (count_relation r F1)
               = sample_size_f64 (PyFloat train_size) (count_relation r (drop_duplicates edgelist)))
      \<and> (\<forall>r. int (count_relation r F2)
               = sample_size_f64 (PyFloat (validation_fraction train_size validation_size))
                   (count_relation r (drop_duplicates edgelist) - count_relation r F1))
      \<and> (\<forall>r. count_relation r F3 = count_relation r (drop_duplicates edgelist)
                - count_relation r F1 - count_relation r F2)"
proof -
  have f1: "0 \<le> num_value (PyFloat train_size)" "num_value (PyFloat train_size) \<le> 1"
    using t by (simp_all add: num_value_def)
  have f2: "0 \<le> num_value (PyFloat (validation_fraction train_size validation_size))"
    "num_value (PyFloat (validation_fraction train_size validation_size)) \<le> 1"
    using validation_fraction_range(2,3) [OF dt dv t(2) vs] by (simp_all add: num_value_def)
  have dld: "distinct (map fst (drop_duplicates edgelist))"
    using dl by (rule drop_duplicates_labels)
  have lnd: "length (drop_duplicates edgelist) < 2 ^ 53"
  proof -
    have "distinct (drop_duplicates edgelist)" using dld by (simp add: distinct_map)
    then have "length (drop_duplicates edgelist) = card (set (drop_duplicates edgelist))"
      by (simp add: distinct_card)
    also have "\<dots> \<le> card (set edgelist)"
      using drop_duplicates_subset [of edgelist] by (simp add: card_mono)
    also have "\<dots> \<le> length edgelist" by (rule card_length)
    finally show ?thesis using ln by linarith
  qed
  have rne: "unique_relations edgelist \<noteq> []"
    using ne unique_relations_set [of edgelist] by (metis image_is_empty set_empty)
  have rl: "\<forall>row \<in> set (drop_duplicates edgelist). relation (snd row) \<in> set (unique_relations edgelist)"
    using drop_duplicates_subset [of edgelist] unique_relations_set [of edgelist] by auto
  have nz: "double_round (1 - train_size) \<noteq> 0"
    using validation_fraction_range(1) [OF dt dv t(2) vs] .
  have eq: "weighted_splitter_f64 choice g edgelist train_size validation_size
      = split_rounds_f64 choice
          [PyFloat train_size, PyFloat (validation_fraction train_size validation_size), PyInt 1]
          (unique_relations edgelist) (drop_duplicates edgelist) g"
    using nz by (simp add: weighted_splitter_f64_def)
  show ?thesis
    unfolding eq
    using three_rounds_f64 [OF v f1 f2 dld lnd unique_relations_distinct rne rl, of g] by blast
qed

text \<open>
  The partition of C1 holds for the splitter in binary64 as well, on frames of fewer than
  \<open>2^53\<close> rows: beyond that size the length of a frame is not a float, and the rounded
  product \<open>frac * len\<close> can exceed the length.
\<close>

lemma weighted_splitter_f64_partition:
  assumes "valid_sampler ch" and "distinct (map fst edgelist)" and "edgelist \<noteq> []"
    and "length edgelist < 2 ^ 53"
    and "is_double train_size" and "is_double validation_size"
    and "0 < train_size" and "train_size < 1"
    and "0 < validation_size" and "validation_size < 1 - train_size"
  shows "\<exists>train validation test g'.
      weighted_splitter_f64 ch g edgelist train_size validation_size
        = Inr ([train, validation, test], g')
      \<and> distinct (map snd train @ map snd validation @ map snd test)
      \<and> set (map snd train) \<union> set (map snd validation) \<union> set (map snd test)
          = set (map snd (drop_duplicates edgelist))"
proof -
  obtain F1 F2 F3 train validation test g' where
    run: "weighted_splitter_f64 ch g edgelist train_size validation_size
            = Inr ([train, validation, test], g')"
    and m: "map snd train = map snd F1" "map snd validation = map snd F2"
      "map snd test = map snd F3"
    and d: "distinct (F1 @ F2 @ F3)"
    and u: "set (F1 @ F2 @ F3) = set (drop_duplicates edgelist)"
    using weighted_splitter_f64_rounds [OF assms, of g] by blast
  have inj: "inj_on snd (set (drop_duplicates edgelist))"
    using drop_duplicates_distinct [of edgelist] by (simp add: distinct_map)
  have inj': "inj_on snd (set (F1 @ F2 @ F3))" unfolding u by (rule inj)
  have dm: "distinct (map snd (F1 @ F2 @ F3))"
    using d inj' distinct_map [of snd "F1 @ F2 @ F3"] by blast
  have um: "set (map snd (F1 @ F2 @ F3)) = set (map snd (drop_duplicates edgelist))"
    using u by (simp only: set_map)
  have dm': "distinct (map snd train @ map snd validation @ map snd test)"
    using dm m by simp
  have um': "set (map snd train) \<union> set (map snd validation) \<union> set (map snd test)
      = set (map snd (drop_duplicates edgelist))"
    using um m by (simp add: Un_assoc)
  show ?thesis using run dm' um' by (intro exI conjI)
qed

text \<open>
  Beyond that size a round can fail. The fractions \<open>3 * 2^-55\<close> and \<open>1 - 2^-53\<close> are
  floats in the valid range; their difference \<open>1 - train_size\<close> rounds down to
  \<open>validation_size\<close>, so that the validation fraction is the float 1.0; and on
  \<open>2^53 + 3\<close> rows the length converts to the float \<open>2^53 + 4\<close>, the sample size exceeds
  the number of rows and numpy raises.
\<close>

lemma sample_size_f64_beyond_2_53: "sample_size_f64 (PyFloat 1) (2 ^ 53 + 3) = 2 ^ 53 + 4"
proof -
  have n: "(of_nat (2 ^ 53 + 3) :: rat) = 9007199254740995" by simp
  have a: "double_round (9007199254740995 :: rat) = 9007199254740996" by code_simp
  have b: "double_round (9007199254740996 :: rat) = 9007199254740996" by code_simp
  have c: "py_round (of_int 9007199254740996) = 9007199254740996" by (rule py_round_of_int)
  have "sample_size_f64 (PyFloat 1) (2 ^ 53 + 3)
      = py_round (double_round (double_round (of_nat (2 ^ 53 + 3))))"
    by (simp add: sample_size_f64_def)
  also have "\<dots> = py_round (of_int 9007199254740996)" unfolding n a b by simp
  also note c
  finally show ?thesis by simp
qed

lemma sample_f64_beyond_2_53:
  "is_double (3 / 2 ^ 55) \<and> is_double (1 - 1 / 2 ^ 53)
   \<and> (0 :: rat) < 3 / 2 ^ 55 \<and> (3 / 2 ^ 55 :: rat) < 1
   \<and> (0 :: rat) < 1 - 1 / 2 ^ 53 \<and> (1 - 1 / 2 ^ 53 :: rat) < 1 - 3 / 2 ^ 55
   \<and> validation_fraction (3 / 2 ^ 55) (1 - 1 / 2 ^ 53) = 1
   \<and> sample_f64 stream_choice [] (PyFloat 1) (replicate (2 ^ 53 + 3) (0 :: nat))
     = Inl (ValueError (''Cannot take a larger sample than population when ''
                         @ py_repr ''replace=False''))"
proof -
  have d1: "is_double (3 / 2 ^ 55)" unfolding is_double_def by code_simp
  have d2: "is_double (1 - 1 / 2 ^ 53)" unfolding is_double_def by code_simp
  have r: "(0 :: rat) < 3 / 2 ^ 55" "(3 / 2 ^ 55 :: rat) < 1"
    "(0 :: rat) < 1 - 1 / 2 ^ 53" "(1 - 1 / 2 ^ 53 :: rat) < 1 - 3 / 2 ^ 55"
    by simp_all
  have f: "validation_fraction (3 / 2 ^ 55) (1 - 1 / 2 ^ 53) = 1" by code_simp
  have l: "length (replicate (2 ^ 53 + 3) (0 :: nat)) = 2 ^ 53 + 3" by (rule length_replicate)
  have v: "num_value (PyFloat 1) = 1" by (simp add: num_value_def)
  have s: "sample_f64 stream_choice [] (PyFloat 1) (replicate (2 ^ 53 + 3) (0 :: nat))
     = Inl (ValueError (''Cannot take a larger sample than population when ''
                         @ py_repr ''replace=False''))"
    unfolding sample_f64_def Let_def l sample_size_f64_beyond_2_53 v by simp
  show ?thesis by (intro conjI) (rule d1 d2 r f s)+
qed

subsection \<open>Fractions and coverage\<close>

text \<open>
  Claim C2, as amended. For every non-empty edgelist of fewer than \<open>2^53\<close> rows whose
  index labels are pairwise different, and all floats with \<open>0 < train_size < 1\<close> and
  \<open>0 < validation_size < 1 - train_size\<close>, the splitter returns three splits. Within
  every relation type the validation split has \<open>round(frac * n)\<close> edges, where \<open>frac\<close>
  is the float \<open>validation_size / (1 - train_size)\<close> and \<open>n\<close> the number of edges of the
  type left by the training round, difference, quotient and product rounded as binary64
  rounds them. The test round has the int fraction 1 and takes all that is left, so that
  the three counts add up to the count in the deduplicated edgelist and every edge in
  neither train nor validation is in test.
\<close>

theorem weighted_splitter_fractions_and_coverage:
  assumes "valid_sampler ch" and "distinct (map fst edgelist)" and "edgelist \<noteq> []"
    and "length edgelist < 2 ^ 53"
    and "is_double train_size" and "is_double validation_size"
    and "0 < train_size" and "train_size < 1"
    and "0 < validation_size" and "validation_size < 1 - train_size"
  shows "\<exists>train validation test g'.
      weighted_splitter_f64 ch g edgelist train_size validation_size
        = Inr ([train, validation, test], g')
      \<and> (\<forall>r. int (count_relation r validation)
             = sample_size_f64
                 (PyFloat (double_round (validation_size / double_round (1 - train_size))))
                 (count_relation r (drop_duplicates edgelist) - count_relation r train))
      \<and> (\<forall>r. int (count_relation r test)
             = sample_size_f64 (PyInt 1)
                 (count_relation r (drop_duplicates edgelist)
                    - count_relation r train - count_relation r validation))
      \<and> (\<forall>r. count_relation r train + count_relation r validation + count_relation r test
             = count_relation r (drop_duplicates edgelist))
      \<and> (\<forall>e \<in> set (map snd (drop_duplicates edgelist)).
            e \<notin> set (map snd train) \<longrightarrow> e \<notin> set (map snd validation)
              \<longrightarrow> e \<in> set (map snd test))"
proof -
  let ?n = "\<lambda>r. count_relation r (drop_duplicates edgelist)"
  let ?f2 = "PyFloat (validation_fraction train_size validation_size)"
  obtain F1 F2 F3 train validation test g' where
    run: "weighted_splitter_f64 ch g edgelist train_size validation_size
            = Inr ([train, validation, test], g')"
    and m: "map snd train = map snd F1" "map snd validation = map snd F2"
      "map snd test = map snd F3"
    and u: "set (F1 @ F2 @ F3) = set (drop_duplicates edgelist)"
    and c1: "\<forall>r. int (count_relation r F1) = sample_size_f64 (PyFloat train_size) (?n r)"
    and c2: "\<forall>r. int (count_relation r F2) = sample_size_f64 ?f2 (?n r - count_relation r F1)"
    and c3: "\<forall>r. count_relation r F3 = ?n r - count_relation r F1 - count_relation r F2"
    using weighted_splitter_f64_rounds [OF assms, of g] by blast
  have k: "count_relation r train = count_relation r F1"
    "count_relation r validation = count_relation r F2"
    "count_relation r test = count_relation r F3" for r
    using m by (simp_all add: count_relation_snd')
  have f1: "0 \<le> num_value (PyFloat train_size)" "num_value (PyFloat train_size) \<le> 1"
    using assms(7,8) by (simp_all add: num_value_def)
  have f2: "0 \<le> num_value ?f2" "num_value ?f2 \<le> 1"
    using validation_fraction_range(2,3) [OF assms(5,6,8,9,10)] by (simp_all add: num_value_def)
  have dld: "distinct (drop_duplicates edgelist)"
    using drop_duplicates_labels [OF assms(2)] by (simp add: distinct_map)
  have small: "j < 2 ^ 53" if "j \<le> ?n r" for j r
  proof -
    have "?n r \<le> length (drop_duplicates edgelist)" by (simp add: count_relation_def)
    also have "\<dots> = card (set (drop_duplicates edgelist))" using dld by (simp add: distinct_card)
    also have "\<dots> \<le> card (set edgelist)"
      using drop_duplicates_subset [of edgelist] by (simp add: card_mono)
    also have "\<dots> \<le> length edgelist" by (rule card_length)
    finally show ?thesis using that assms(4) by linarith
  qed
  have le1: "count_relation r F1 \<le> ?n r" for r
    using c1 [rule_format, of r] sample_size_f64_range(2) [OF f1 small [of "?n r" r]] by simp
  have le2: "count_relation r F2 \<le> ?n r - count_relation r F1" for r
    using c2 [rule_format, of r]
      sample_size_f64_range(2) [OF f2 small [of "?n r - count_relation r F1" r]] by simp
  have a: "\<forall>r. int (count_relation r validation)
             = sample_size_f64
                 (PyFloat (double_round (validation_size / double_round (1 - train_size))))
                 (?n r - count_relation r train)"
    using c2 k unfolding validation_fraction_def by simp
  have b: "\<forall>r. int (count_relation r test)
             = sample_size_f64 (PyInt 1) (?n r - count_relation r train - count_relation r validation)"
    using c3 k by (simp add: sample_size_f64_one)
  have c: "\<forall>r. count_relation r train + count_relation r validation + count_relation r test = ?n r"
  proof
    fix r
    show "count_relation r train + count_relation r validation + count_relation r test = ?n r"
      using c3 le1 [of r] le2 [of r] k [of r] by simp
  qed
  have um: "set (map snd F1) \<union> set (map snd F2) \<union> set (map snd F3)
      = set (map snd (drop_duplicates edgelist))"
  proof -
    have "set (map snd (F1 @ F2 @ F3)) = set (map snd (drop_duplicates edgelist))"
      using u by (simp only: set_map)
    then show ?thesis by (simp add: Un_assoc)
  qed
  have d: "\<forall>e \<in> set (map snd (drop_duplicates edgelist)).
            e \<notin> set (map snd train) \<longrightarrow> e \<notin> set (map snd validation)
              \<longrightarrow> e \<in> set (map snd test)"
    unfolding m using um by blast
  show ?thesis using run a b c d by (intro exI conjI)
qed

text \<open>
  Five rows of one relation type at the fractions 0.8 and 0.1: the float quotient is
  \<open>0.5 + 2^-53\<close>, not one half, and of the one row left by the training round the
  validation round takes \<open>round(0.5000000000000001 * 1) = 1\<close>.
\<close>

theorem weighted_splitter_fractions_and_coverage_witness:
  "is_double (double_round (8 / 10)) \<and> is_double (double_round (1 / 10))
   \<and> 0 < double_round (8 / 10) \<and> double_round (8 / 10) < 1
   \<and> 0 < double_round (1 / 10) \<and> double_round (1 / 10) < 1 - double_round (8 / 10)
   \<and> (\<exists>train validation test g'.
        weighted_splitter_f64 stream_choice []
          [(0 :: nat, \<lparr>source = ''p1'', relation = ''up'', target = ''g1''\<rparr>),
           (1, \<lparr>source = ''p2'', relation = ''up'', target = ''g1''\<rparr>),
           (2, \<lparr>source = ''p3'', relation = ''up'', target = ''g1''\<rparr>),
           (3, \<lparr>source = ''p4'', relation = ''up'', target = ''g1''\<rparr>),
           (4, \<lparr>source = ''p5'', relation = ''up'', target = ''g1''\<rparr>)]
          (double_round (8 / 10)) (double_round (1 / 10))
          = Inr ([train, validation, test], g')
        \<and> (\<forall>r. int (count_relation r validation)
             = sample_size_f64
                 (PyFloat (double_round (double_round (1 / 10) / double_round (1 - double_round (8 / 10)))))
                 (count_relation r (drop_duplicates
                    [(0 :: nat, \<lparr>source = ''p1'', relation = ''up'', target = ''g1''\<rparr>),
                     (1, \<lparr>source = ''p2'', relation = ''up'', target = ''g1''\<rparr>),
                     (2, \<lparr>source = ''p3'', relation = ''up'', target = ''g1''\<rparr>),
                     (3, \<lparr>source = ''p4'', relation = ''up'', target = ''g1''\<rparr>),
                     (4, \<lparr>source = ''p5'', relation = ''up'', target = ''g1''\<rparr>)])
                  - count_relation r train))
        \<and> (\<forall>r. count_relation r train + count_relation r validation + count_relation r test
             = count_relation r (drop_duplicates
                    [(0 :: nat, \<lparr>source = ''p1'', relation = ''up'', target = ''g1''\<rparr>),
                     (1, \<lparr>source = ''p2'', relation = ''up'', target = ''g1''\<rparr>),
                     (2, \<lparr>source = ''p3'', relation = ''up'', target = ''g1''\<rparr>),
                     (3, \<lparr>source = ''p4'', relation = ''up'', target = ''g1''\<rparr>),
                     (4, \<lparr>source = ''p5'', relation = ''up'', target = ''g1''\<rparr>)])))
   \<and> weighted_splitter_f64 stream_choice []
        [(0 :: nat, \<lparr>source = ''p1'', relation = ''up'', target = ''g1''\<rparr>),
         (1, \<lparr>source = ''p2'', relation = ''up'', target = ''g1''\<rparr>),
         (2, \<lparr>source = ''p3'', relation = ''up'', target = ''g1''\<rparr>),
         (3, \<lparr>source = ''p4'', relation = ''up'', target = ''g1''\<rparr>),
         (4, \<lparr>source = ''p5'', relation = ''up'', target = ''g1''\<rparr>)]
        (double_round (8 / 10)) (double_round (1 / 10))
      = Inr ([[(0, \<lparr>source = ''p1'', relation = ''up'', target = ''g1''\<rparr>),
               (1, \<lparr>source = ''p2'', relation = ''up'', target = ''g1''\<rparr>),
               (2, \<lparr>source = ''p3'', relation = ''up'', target = ''g1''\<rparr>),
               (3, \<lparr>source = ''p4'', relation = ''up'', target = ''g1''\<rparr>)],
              [(0, \<lparr>source = ''p5'', relation = ''up'', target = ''g1''\<rparr>)],
              []], [])
   \<and> double_round (double_round (1 / 10) / double_round (1 - double_round (8 / 10)))
      = 4503599627370497 / 9007199254740992
   \<and> sample_size_f64 (PyFloat (4503599627370497 / 9007199254740992)) 1 = 1"
proof -
  let ?e = "[(0 :: nat, \<lparr>source = ''p1'', relation = ''up'', target = ''g1''\<rparr>),
           (1, \<lparr>source = ''p2'', relation = ''up'', target = ''g1''\<rparr>),
           (2, \<lparr>source = ''p3'', relation = ''up'', target = ''g1''\<rparr>),
           (3, \<lparr>source = ''p4'', relation = ''up'', target = ''g1''\<rparr>),
           (4, \<lparr>source = ''p5'', relation = ''up'', target = ''g1''\<rparr>)]"
  have h: "distinct (map fst ?e)" "?e \<noteq> []" "length ?e < 2 ^ 53" by simp_all
  have d1: "is_double (double_round (8 / 10))" unfolding is_double_def by code_simp
  have d2: "is_double (double_round (1 / 10))" unfolding is_double_def by code_simp
  have r1: "0 < double_round (8 / 10)" by code_simp
  have r2: "double_round (8 / 10) < 1" by code_simp
  have r3: "0 < double_round (1 / 10)" by code_simp
  have r4: "double_round (1 / 10) < 1 - double_round (8 / 10)" by code_simp
  obtain train validation test g' where
    a1: "weighted_splitter_f64 stream_choice [] ?e (double_round (8 / 10)) (double_round (1 / 10))
          = Inr ([train, validation, test], g')"
    and a2: "\<forall>r. int (count_relation r validation)
             = sample_size_f64
                 (PyFloat (double_round (double_round (1 / 10) / double_round (1 - double_round (8 / 10)))))
                 (count_relation r (drop_duplicates ?e) - count_relation r train)"
    and a3: "\<forall>r. count_relation r train + count_relation r validation + count_relation r test
             = count_relation r (drop_duplicates ?e)"
    using weighted_splitter_fractions_and_coverage
      [OF stream_choice_valid h d1 d2 r1 r2 r3 r4, of "[]"]
    by (elim exE conjE)
  have ex: "\<exists>train validation test g'.
        weighted_splitter_f64 stream_choice [] ?e (double_round (8 / 10)) (double_round (1 / 10))
          = Inr ([train, validation, test], g')
        \<and> (\<forall>r. int (count_relation r validation)
             = sample_size_f64
                 (PyFloat (double_round (double_round (1 / 10) / double_round (1 - double_round (8 / 10)))))
                 (count_relation r (drop_duplicates ?e) - count_relation r train))
        \<and> (\<forall>r. count_relation r train + count_relation r validation + count_relation r test
             = count_relation r (drop_duplicates ?e))"
    by (intro exI [of _ train] exI [of _ validation] exI [of _ test] exI [of _ g'] conjI)
      (rule a1 a2 a3)+
  have run: "weighted_splitter_f64 stream_choice [] ?e (double_round (8 / 10)) (double_round (1 / 10))
      = Inr ([[(0, \<lparr>source = ''p1'', relation = ''up'', target = ''g1''\<rparr>),
               (1, \<lparr>source = ''p2'', relation = ''up'', target = ''g1''\<rparr>),
               (2, \<lparr>source = ''p3'', relation = ''up'', target = ''g1''\<rparr>),
               (3, \<lparr>source = ''p4'', relation = ''up'', target = ''g1''\<rparr>)],
              [(0, \<lparr>source = ''p5'', relation = ''up'', target = ''g1''\<rparr>)],
              []], [])"
    by code_simp
  have fr: "double_round (double_round (1 / 10) / double_round (1 - double_round (8 / 10)))
      = 4503599627370497 / 9007199254740992"
    by code_simp
  have sz: "sample_size_f64 (PyFloat (4503599627370497 / 9007199254740992)) 1 = 1"
    by code_simp
  show ?thesis
    by (intro conjI) (rule d1 d2 r1 r2 r3 r4 ex run fr sz)+
qed

text \<open>
  Claim C2, as stated, fails on a frame whose two rows, of different relation types, share
  the index label 0: the test round takes the row of type \<open>down\<close> and removes both rows;
  the edge of type \<open>up\<close> is in no split. And on the empty edgelist there is no round to
  speak of: \<open>pd.concat\<close> raises.
\<close>

theorem weighted_splitter_coverage_counterexample:
  "weighted_splitter_f64 stream_choice []
     [(0 :: nat, \<lparr>source = ''p1'', relation = ''up'', target = ''g1''\<rparr>),
      (0, \<lparr>source = ''p2'', relation = ''down'', target = ''g2''\<rparr>)] (1 / 2) (1 / 4)
     = Inr ([[], [], [(0, \<lparr>source = ''p2'', relation = ''down'', target = ''g2''\<rparr>)]], [])
   \<and> \<lparr>source = ''p1'', relation = ''up'', target = ''g1''\<rparr>
       \<in> set (map snd (drop_duplicates
           [(0 :: nat, \<lparr>source = ''p1'', relation = ''up'', target = ''g1''\<rparr>),
            (0, \<lparr>source = ''p2'', relation = ''down'', target = ''g2''\<rparr>)]))
   \<and> \<lparr>source = ''p1'', relation = ''up'', target = ''g1''\<rparr>
       \<notin> set (map snd [(0 :: nat, \<lparr>source = ''p2'', relation = ''down'', target = ''g2''\<rparr>)])
   \<and> weighted_splitter_f64 stream_choice [] ([] :: nat frame) (1 / 2) (1 / 4)
     = Inl (ValueError ''No objects to concatenate'')"
proof (intro conjI)
  show "weighted_splitter_f64 stream_choice [] ([] :: nat frame) (1 / 2) (1 / 4)
     = Inl (ValueError ''No objects to concatenate'')"
    by code_simp
  show "weighted_splitter_f64 stream_choice []
     [(0 :: nat, \<lparr>source = ''p1'', relation = ''up'', target = ''g1''\<rparr>),
      (0, \<lparr>source = ''p2'', relation = ''down'', target = ''g2''\<rparr>)] (1 / 2) (1 / 4)
     = Inr ([[], [], [(0, \<lparr>source = ''p2'', relation = ''down'', target = ''g2''\<rparr>)]], [])"
    by code_simp
  show "\<lparr>source = ''p1'', relation = ''up'', target = ''g1''\<rparr>
       \<in> set (map snd (drop_duplicates
           [(0 :: nat, \<lparr>source = ''p1'', relation = ''up'', target = ''g1''\<rparr>),
            (0, \<lparr>source = ''p2'', relation = ''down'', target = ''g2''\<rparr>)]))"
    by (simp add: drop_duplicates_def)
  show "\<lparr>source = ''p1'', relation = ''up'', target = ''g1''\<rparr>
       \<notin> set (map snd [(0 :: nat, \<lparr>source = ''p2'', relation = ''down'', target = ''g2''\<rparr>)])"
    by simp
qed

subsection \<open>Reproducibility and the sequence of sampling calls\<close>

lemma logged_valid: "valid_sampler ch \<Longrightarrow> valid_sampler (logged ch)"
  unfolding valid_sampler_def logged_def by (simp add: split_beta)

text \<open>Recording the calls does not change what is drawn.\<close>

lemma sample_f64_logged:
  "sample_f64 (logged ch) (g, calls) f rs
     = (case sample_f64 ch g f rs of
          Inl e \<Rightarrow> Inl e
        | Inr (temp, g') \<Rightarrow>
            Inr (temp, (g', calls @ [(length rs, nat (sample_size_f64 f (length rs)))])))"
  by (simp add: sample_f64_def logged_def split_beta Let_def)

lemma sample_f64_logged_calls:
  "sample_f64 (logged ch) (g, calls) f rs = Inr (temp, s') \<Longrightarrow>
     snd s' = calls @ [(length rs, nat (sample_size_f64 f (length rs)))]"
  by (auto simp: sample_f64_logged split: sum.splits)

lemma sample_relations_f64_calls:
  assumes "valid_sampler ch" "0 \<le> num_value f" "num_value f \<le> 1"
  shows "distinct (map fst data) \<Longrightarrow> length data < 2 ^ 53 \<Longrightarrow> distinct rels \<Longrightarrow>
     sample_relations_f64 (logged ch) f rels data s = Inr (frames, data', s') \<Longrightarrow>
     snd s' = snd s @ round_calls_f64 f rels (\<lambda>r. count_relation r data)"
proof (induction rels arbitrary: data s frames)
  case Nil
  then show ?case by (simp add: round_calls_f64_def)
next
  case (Cons rel rels)
  let ?rows = "filter (\<lambda>row. relation (snd row) = rel) data"
  obtain g calls where s: "s = (g, calls)" by (cases s)
  have lr: "length ?rows < 2 ^ 53"
    using Cons.prems(2) length_filter_le [of "\<lambda>row. relation (snd row) = rel" data] by linarith
  obtain temp s1 where sm: "sample_f64 (logged ch) s f ?rows = Inr (temp, s1)"
    and ts: "set temp \<subseteq> set ?rows"
    using sample_f64_ok [OF logged_valid [OF assms(1)] assms(2,3) lr, of s] by blast
  have c1: "snd s1 = snd s @ [(count_relation rel data,
                               nat (sample_size_f64 f (count_relation rel data)))]"
    using sample_f64_logged_calls [of ch g calls f ?rows temp s1] sm s
    by (simp add: count_relation_def)
  let ?data1 = "filter (\<lambda>row. row \<notin> set temp) data"
  have tsd: "set temp \<subseteq> set data" using ts by auto
  have d1: "filter (\<lambda>row. fst row \<notin> set (map fst temp)) data = ?data1"
    using remove_by_label [OF Cons.prems(1) tsd] .
  have dd1: "distinct (map fst ?data1)" using Cons.prems(1) by (rule distinct_map_filter)
  have l1: "length ?data1 < 2 ^ 53"
    using Cons.prems(2) length_filter_le [of "\<lambda>row. row \<notin> set temp" data] by linarith
  obtain frames1 where
    r: "sample_relations_f64 (logged ch) f rels ?data1 s1 = Inr (frames1, data', s')"
    using Cons.prems(4) sm d1 by (auto split: sum.splits)
  have dr: "distinct rels" and nr: "rel \<notin> set rels" using Cons.prems(3) by simp_all
  have ih: "snd s' = snd s1 @ round_calls_f64 f rels (\<lambda>r. count_relation r ?data1)"
    using Cons.IH [OF dd1 l1 dr r] .
  have trel: "\<forall>row \<in> set temp. relation (snd row) = rel" using ts by auto
  have same: "count_relation r ?data1 = count_relation r data" if "r \<in> set rels" for r
  proof -
    have "r \<noteq> rel" using that nr by auto
    then have "filter (\<lambda>row. relation (snd row) = r) ?data1
             = filter (\<lambda>row. relation (snd row) = r) data"
      using trel by (auto simp: filter_filter intro!: filter_cong)
    then show ?thesis by (simp add: count_relation_def)
  qed
  have "round_calls_f64 f rels (\<lambda>r. count_relation r ?data1)
      = round_calls_f64 f rels (\<lambda>r. count_relation r data)"
    unfolding round_calls_f64_def using same by simp
  then show ?case using ih c1 by (simp add: round_calls_f64_def)
qed

lemma three_rounds_f64_calls:
  assumes v: "valid_sampler ch" and f1: "0 \<le> num_value f1" "num_value f1 \<le> 1"
    and f2: "0 \<le> num_value f2" "num_value f2 \<le> 1"
    and dl: "distinct (map fst data)" and ln: "length data < 2 ^ 53"
    and dr: "distinct rels" and ne: "rels \<noteq> []"
    and rl: "\<forall>row \<in> set data. relation (snd row) \<in> set rels"
  shows "\<exists>parts g'. split_rounds_f64 (logged ch) [f1, f2, PyInt 1] rels data (g, []) =
      Inr (parts, (g',
        round_calls_f64 f1 rels (\<lambda>r. count_relation r data)
        @ round_calls_f64 f2 rels
            (\<lambda>r. count_relation r data - nat (sample_size_f64 f1 (count_relation r data)))
        @ round_calls_f64 (PyInt 1) rels
            (\<lambda>r. count_relation r data - nat (sample_size_f64 f1 (count_relation r data))
               - nat (sample_size_f64 f2
                   (count_relation r data - nat (sample_size_f64 f1 (count_relation r data)))))))"
proof -
  let ?ch = "logged ch"
  let ?n0 = "\<lambda>r. count_relation r data"
  let ?n1 = "\<lambda>r. ?n0 r - nat (sample_size_f64 f1 (?n0 r))"
  let ?n2 = "\<lambda>r. ?n1 r - nat (sample_size_f64 f2 (?n1 r))"
  have lv: "valid_sampler ?ch" using v by (rule logged_valid)
  obtain fr1 data1 s1 where
    r1: "sample_relations_f64 ?ch f1 rels data (g, []) = Inr (fr1, data1, s1)"
    and l1: "length fr1 = length rels"
    and e1: "data1 = filter (\<lambda>row. row \<notin> set (concat fr1)) data"
    and c1: "\<forall>r. int (count_relation r (concat fr1)) = sample_size_f64 f1 (count_relation r data)"
    and k1: "\<forall>r. count_relation r data1 = count_relation r data - count_relation r (concat fr1)"
    using round_f64_inv [OF lv f1 dl ln dr rl, of "(g, [])"] by blast
  have dl1: "distinct (map fst data1)" unfolding e1 using dl by (rule distinct_map_filter)
  have ln1: "length data1 < 2 ^ 53"
    unfolding e1 using ln length_filter_le [of "\<lambda>row. row \<notin> set (concat fr1)" data] by linarith
  have rl1: "\<forall>row \<in> set data1. relation (snd row) \<in> set rels" unfolding e1 using rl by simp
  have c1n: "count_relation r (concat fr1) = nat (sample_size_f64 f1 (count_relation r data))" for r
    using c1 [rule_format, of r] by linarith
  have n1: "(\<lambda>r. count_relation r data1) = ?n1" using c1n k1 by simp
  obtain fr2 data2 s2 where
    r2: "sample_relations_f64 ?ch f2 rels data1 s1 = Inr (fr2, data2, s2)"
    and l2: "length fr2 = length rels"
    and e2: "data2 = filter (\<lambda>row. row \<notin> set (concat fr2)) data1"
    and c2: "\<forall>r. int (count_relation r (concat fr2)) = sample_size_f64 f2 (count_relation r data1)"
    and k2: "\<forall>r. count_relation r data2 = count_relation r data1 - count_relation r (concat fr2)"
    using round_f64_inv [OF lv f2 dl1 ln1 dr rl1, of s1] by blast
  have dl2: "distinct (map fst data2)" unfolding e2 using dl1 by (rule distinct_map_filter)
  have ln2: "length data2 < 2 ^ 53"
    unfolding e2 using ln1 length_filter_le [of "\<lambda>row. row \<notin> set (concat fr2)" data1] by linarith
  have rl2: "\<forall>row \<in> set data2. relation (snd row) \<in> set rels" unfolding e2 using rl1 by simp
  have c2n: "count_relation r (concat fr2) = nat (sample_size_f64 f2 (count_relation r data1))" for r
    using c2 [rule_format, of r] by linarith
  have n2: "(\<lambda>r. count_relation r data2) = ?n2"
  proof
    fix r
    have "count_relation r data2 = count_relation r data1 - nat (sample_size_f64 f2 (count_relation r data1))"
      using c2n k2 by simp
    moreover have "count_relation r data1 = ?n1 r" using n1 by (simp add: fun_eq_iff)
    ultimately show "count_relation r data2 = ?n2 r" by simp
  qed
  have one: "0 \<le> num_value (PyInt 1)" "num_value (PyInt 1) \<le> 1" by (simp_all add: num_value_def)
  obtain fr3 data3 s3 where
    r3: "sample_relations_f64 ?ch (PyInt 1) rels data2 s2 = Inr (fr3, data3, s3)"
    and l3: "length fr3 = length rels"
    using round_f64_inv [OF lv one dl2 ln2 dr rl2, of s2] by blast
  have t1: "snd s1 = round_calls_f64 f1 rels ?n0"
    using sample_relations_f64_calls [OF v f1 dl ln dr r1] by simp
  have t2: "snd s2 = snd s1 @ round_calls_f64 f2 rels ?n1"
    using sample_relations_f64_calls [OF v f2 dl1 ln1 dr r2] n1 by simp
  have t3: "snd s3 = snd s2 @ round_calls_f64 (PyInt 1) rels ?n2"
    using sample_relations_f64_calls [OF v one dl2 ln2 dr r3] n2 by simp
  have ne1: "fr1 \<noteq> []" and ne2: "fr2 \<noteq> []" and ne3: "fr3 \<noteq> []"
    using ne l1 l2 l3 by auto
  obtain p1 where p1: "pd_concat fr1 = Inr p1" using pd_concat_ok [OF ne1] by blast
  obtain p2 where p2: "pd_concat fr2 = Inr p2" using pd_concat_ok [OF ne2] by blast
  obtain p3 where p3: "pd_concat fr3 = Inr p3" using pd_concat_ok [OF ne3] by blast
  have run: "split_rounds_f64 ?ch [f1, f2, PyInt 1] rels data (g, []) = Inr ([p1, p2, p3], s3)"
    using r1 r2 r3 p1 p2 p3 by simp
  have "s3 = (fst s3, round_calls_f64 f1 rels ?n0 @ round_calls_f64 f2 rels ?n1
                 @ round_calls_f64 (PyInt 1) rels ?n2)"
    using t1 t2 t3 by (simp add: prod_eq_iff)
  then have "split_rounds_f64 ?ch [f1, f2, PyInt 1] rels data (g, []) =
      Inr ([p1, p2, p3],
        (fst s3, round_calls_f64 f1 rels ?n0 @ round_calls_f64 f2 rels ?n1
                 @ round_calls_f64 (PyInt 1) rels ?n2))"
    using run by simp
  then show ?thesis by (intro exI)
qed

lemma weighted_splitter_f64_calls:
  assumes v: "valid_sampler ch" and dl: "distinct (map fst edgelist)" and ne: "edgelist \<noteq> []"
    and ln: "length edgelist < 2 ^ 53"
    and dt: "is_double train_size" and dv: "is_double validation_size"
    and t: "0 < train_size" "train_size < 1"
    and vs: "0 < validation_size" "validation_size < 1 - train_size"
  shows "\<exists>splits g'. weighted_splitter_f64 (logged ch) (g, []) edgelist train_size validation_size
           = Inr (splits, (g', expected_calls_f64 edgelist train_size validation_size))"
proof -
  have f1: "0 \<le> num_value (PyFloat train_size)" "num_value (PyFloat train_size) \<le> 1"
    using t by (simp_all add: num_value_def)
  have f2: "0 \<le> num_value (PyFloat (validation_fraction train_size validation_size))"
    "num_value (PyFloat (validation_fraction train_size validation_size)) \<le> 1"
    using validation_fraction_range(2,3) [OF dt dv t(2) vs] by (simp_all add: num_value_def)
  have dld: "distinct (map fst (drop_duplicates edgelist))"
    using dl by (rule drop_duplicates_labels)
  have lnd: "length (drop_duplicates edgelist) < 2 ^ 53"
  proof -
    have "distinct (drop_duplicates edgelist)" using dld by (simp add: distinct_map)
    then have "length (drop_duplicates edgelist) = card (set (drop_duplicates edgelist))"
      by (simp add: distinct_card)
    also have "\<dots> \<le> card (set edgelist)"
      using drop_duplicates_subset [of edgelist] by (simp add: card_mono)
    also have "\<dots> \<le> length edgelist" by (rule card_length)
    finally show ?thesis using ln by linarith
  qed
  have rne: "unique_relations edgelist \<noteq> []"
    using ne unique_relations_set [of edgelist] by (metis image_is_empty set_empty)
  have rl: "\<forall>row \<in> set (drop_duplicates edgelist). relation (snd row) \<in> set (unique_relations edgelist)"
    using drop_duplicates_subset [of edgelist] unique_relations_set [of edgelist] by auto
  have nz: "double_round (1 - train_size) \<noteq> 0"
    using validation_fraction_range(1) [OF dt dv t(2) vs] .
  have eq: "weighted_splitter_f64 (logged ch) (g, []) edgelist train_size validation_size
      = split_rounds_f64 (logged ch)
          [PyFloat train_size, PyFloat (validation_fraction train_size validation_size), PyInt 1]
          (unique_relations edgelist) (drop_duplicates edgelist) (g, [])"
    using nz by (simp add: weighted_splitter_f64_def)
  show ?thesis
    unfolding eq expected_calls_f64_def Let_def
    using three_rounds_f64_calls [OF v f1 f2 dld lnd unique_relations_distinct rne rl, of g] .
qed

text \<open>Generators that answer alike give the same run.\<close>

lemma sample_f64_alike:
  assumes "draws_alike R ch1 ch2" "R g1 g2"
  shows "rel_sum (=) (rel_prod (=) R) (sample_f64 ch1 g1 f rs) (sample_f64 ch2 g2 f rs)"
proof -
  let ?k = "nat (sample_size_f64 f (length rs))"
  have a: "fst (ch1 g1 (length rs) ?k) = fst (ch2 g2 (length rs) ?k)"
    and b: "R (snd (ch1 g1 (length rs) ?k)) (snd (ch2 g2 (length rs) ?k))"
    using assms unfolding draws_alike_def by blast+
  show ?thesis using a b by (simp add: sample_f64_def Let_def split_beta)
qed

lemma sample_relations_f64_alike:
  assumes "draws_alike R ch1 ch2"
  shows "R g1 g2 \<Longrightarrow>
     rel_sum (=) (rel_prod (=) (rel_prod (=) R))
       (sample_relations_f64 ch1 f rels data g1) (sample_relations_f64 ch2 f rels data g2)"
proof (induction rels arbitrary: data g1 g2)
  case Nil
  then show ?case by simp
next
  case (Cons rel rels)
  let ?rows = "filter (\<lambda>row. relation (snd row) = rel) data"
  have s: "rel_sum (=) (rel_prod (=) R) (sample_f64 ch1 g1 f ?rows) (sample_f64 ch2 g2 f ?rows)"
    using assms Cons.prems by (rule sample_f64_alike)
  show ?case
  proof (cases "sample_f64 ch1 g1 f ?rows")
    case (Inl e)
    then have "sample_f64 ch2 g2 f ?rows = Inl e" using s by (cases "sample_f64 ch2 g2 f ?rows") simp_all
    then show ?thesis using Inl by simp
  next
    case (Inr p)
    obtain temp h1 where p: "p = (temp, h1)" by (cases p)
    obtain h2 where s2: "sample_f64 ch2 g2 f ?rows = Inr (temp, h2)" and r: "R h1 h2"
      using s Inr p by (cases "sample_f64 ch2 g2 f ?rows") auto
    let ?data1 = "filter (\<lambda>row. fst row \<notin> set (map fst temp)) data"
    have ih: "rel_sum (=) (rel_prod (=) (rel_prod (=) R))
       (sample_relations_f64 ch1 f rels ?data1 h1) (sample_relations_f64 ch2 f rels ?data1 h2)"
      using r by (rule Cons.IH)
    show ?thesis
      using Inr p s2 ih
      by (cases "sample_relations_f64 ch1 f rels ?data1 h1";
          cases "sample_relations_f64 ch2 f rels ?data1 h2") auto
  qed
qed

lemma split_rounds_f64_alike:
  assumes "draws_alike R ch1 ch2"
  shows "R g1 g2 \<Longrightarrow>
     rel_sum (=) (rel_prod (=) R)
       (split_rounds_f64 ch1 fs rels data g1) (split_rounds_f64 ch2 fs rels data g2)"
proof (induction fs arbitrary: data g1 g2)
  case Nil
  then show ?case by simp
next
  case (Cons f fs)
  have s: "rel_sum (=) (rel_prod (=) (rel_prod (=) R))
       (sample_relations_f64 ch1 f rels data g1) (sample_relations_f64 ch2 f rels data g2)"
    using assms Cons.prems by (rule sample_relations_f64_alike)
  show ?case
  proof (cases "sample_relations_f64 ch1 f rels data g1")
    case (Inl e)
    then have "sample_relations_f64 ch2 f rels data g2 = Inl e"
      using s by (cases "sample_relations_f64 ch2 f rels data g2") simp_all
    then show ?thesis using Inl by simp
  next
    case (Inr p)
    obtain frames data1 h1 where p: "p = (frames, data1, h1)" by (cases p)
    obtain h2 where s2: "sample_relations_f64 ch2 f rels data g2 = Inr (frames, data1, h2)"
      and r: "R h1 h2"
      using s Inr p by (cases "sample_relations_f64 ch2 f rels data g2") auto
    have ih: "rel_sum (=) (rel_prod (=) R)
       (split_rounds_f64 ch1 fs rels data1 h1) (split_rounds_f64 ch2 fs rels data1 h2)"
      using r by (rule Cons.IH)
    show ?thesis
      using Inr p s2 ih
      by (cases "pd_concat frames"; cases "split_rounds_f64 ch1 fs rels data1 h1";
          cases "split_rounds_f64 ch2 fs rels data1 h2") auto
  qed
qed

lemma weighted_splitter_f64_alike:
  assumes "draws_alike R ch1 ch2" "R g1 g2"
  shows "rel_sum (=) (rel_prod (=) R)
       (weighted_splitter_f64 ch1 g1 edgelist train_size validation_size)
       (weighted_splitter_f64 ch2 g2 edgelist train_size validation_size)"
proof (cases "double_round (1 - train_size) = 0")
  case True
  then show ?thesis by (simp add: weighted_splitter_f64_def)
next
  case False
  let ?fs = "[PyFloat train_size, PyFloat (validation_fraction train_size validation_size), PyInt 1]"
  have e1: "weighted_splitter_f64 ch1 g1 edgelist train_size validation_size
      = split_rounds_f64 ch1 ?fs (unique_relations edgelist) (drop_duplicates edgelist) g1"
    using False by (simp add: weighted_splitter_f64_def)
  have e2: "weighted_splitter_f64 ch2 g2 edgelist train_size validation_size
      = split_rounds_f64 ch2 ?fs (unique_relations edgelist) (drop_duplicates edgelist) g2"
    using False by (simp add: weighted_splitter_f64_def)
  show ?thesis unfolding e1 e2 using assms by (rule split_rounds_f64_alike)
qed

lemma logged_alike: "draws_alike (\<lambda>g s. fst s = g) ch (logged ch)"
  by (simp add: draws_alike_def logged_def split_beta)

lemma draws_alike_refl: "draws_alike (=) ch ch"
  by (simp add: draws_alike_def)

text \<open>
  Claim C4. The splitter reads the generator through the drawn positions alone: two runs
  on the same input whose generators answer alike from their initial states either raise
  the same error or return the same splits, and leave the generators in related states.
  One generator started twice from the same seed is the case of equality of states. The
  relation types are iterated in sorted order without repetition, an order fixed by the
  set of types. And a run on a non-empty edgelist of fewer than \<open>2^53\<close> rows with unique
  index labels and valid float fractions makes, whatever the seed, the calls of
  \<open>expected_calls_f64\<close>, a list computed from the input alone, and returns the same splits
  with or without the recording.
\<close>

theorem weighted_splitter_reproducible:
  fixes ch1 :: "'g sampler" and ch2 :: "'h sampler" and ch :: "'k sampler"
    and edgelist :: "'i frame"
  shows
  "(draws_alike R ch1 ch2 \<and> R g1 g2 \<longrightarrow>
      rel_sum (=) (rel_prod (=) R)
        (weighted_splitter_f64 ch1 g1 edgelist train_size validation_size)
        (weighted_splitter_f64 ch2 g2 edgelist train_size validation_size))
   \<and> sorted (unique_relations edgelist) \<and> distinct (unique_relations edgelist)
   \<and> set (unique_relations edgelist) = (\<lambda>row. relation (snd row)) ` set edgelist
   \<and> (valid_sampler ch \<and> distinct (map fst edgelist) \<and> edgelist \<noteq> []
        \<and> length edgelist < 2 ^ 53
        \<and> is_double train_size \<and> is_double validation_size
        \<and> 0 < train_size \<and> train_size < 1
        \<and> 0 < validation_size \<and> validation_size < 1 - train_size \<longrightarrow>
       (\<exists>splits g'.
          weighted_splitter_f64 ch g edgelist train_size validation_size = Inr (splits, g')
          \<and> weighted_splitter_f64 (logged ch) (g, []) edgelist train_size validation_size
            = Inr (splits, (g', expected_calls_f64 edgelist train_size validation_size))))"
proof (intro conjI impI)
  assume "draws_alike R ch1 ch2 \<and> R g1 g2"
  then show "rel_sum (=) (rel_prod (=) R)
        (weighted_splitter_f64 ch1 g1 edgelist train_size validation_size)
        (weighted_splitter_f64 ch2 g2 edgelist train_size validation_size)"
    using weighted_splitter_f64_alike [of R ch1 ch2 g1 g2] by blast
next
  show "sorted (unique_relations edgelist)" by (rule unique_relations_sorted)
  show "distinct (unique_relations edgelist)" by (rule unique_relations_distinct)
  show "set (unique_relations edgelist) = (\<lambda>row. relation (snd row)) ` set edgelist"
    by (rule unique_relations_set)
next
  assume a: "valid_sampler ch \<and> distinct (map fst edgelist) \<and> edgelist \<noteq> []
        \<and> length edgelist < 2 ^ 53
        \<and> is_double train_size \<and> is_double validation_size
        \<and> 0 < train_size \<and> train_size < 1
        \<and> 0 < validation_size \<and> validation_size < 1 - train_size"
  then have h: "valid_sampler ch" "distinct (map fst edgelist)" "edgelist \<noteq> []"
    "length edgelist < 2 ^ 53" "is_double train_size" "is_double validation_size"
    "0 < train_size" "train_size < 1" "0 < validation_size" "validation_size < 1 - train_size"
    by simp_all
  obtain splits g' where
    l: "weighted_splitter_f64 (logged ch) (g, []) edgelist train_size validation_size
           = Inr (splits, (g', expected_calls_f64 edgelist train_size validation_size))"
    using weighted_splitter_f64_calls [OF h, of g] by blast
  have "rel_sum (=) (rel_prod (=) (\<lambda>g s. fst s = g))
       (weighted_splitter_f64 ch g edgelist train_size validation_size)
       (weighted_splitter_f64 (logged ch) (g, []) edgelist train_size validation_size)"
    by (rule weighted_splitter_f64_alike [OF logged_alike]) simp
  then have u: "weighted_splitter_f64 ch g edgelist train_size validation_size = Inr (splits, g')"
    unfolding l by (cases "weighted_splitter_f64 ch g edgelist train_size validation_size") auto
  show "\<exists>splits g'.
          weighted_splitter_f64 ch g edgelist train_size validation_size = Inr (splits, g')
          \<and> weighted_splitter_f64 (logged ch) (g, []) edgelist train_size validation_size
            = Inr (splits, (g', expected_calls_f64 edgelist train_size validation_size))"
    using u l by (intro exI conjI)
qed

text \<open>
  Two runs from the same seed agree; runs from two different seeds on five rows of one
  relation type, at the fractions 0.8 and 0.1, make the same three calls.
\<close>

theorem weighted_splitter_reproducible_witness:
  "draws_alike (=) stream_choice stream_choice
   \<and> rel_sum (=) (rel_prod (=) (=))
       (weighted_splitter_f64 stream_choice [3, 1, 4]
          [(0 :: nat, \<lparr>source = ''p1'', relation = ''up'', target = ''g1''\<rparr>),
           (1, \<lparr>source = ''p2'', relation = ''up'', target = ''g1''\<rparr>),
           (2, \<lparr>source = ''p3'', relation = ''up'', target = ''g1''\<rparr>),
           (3, \<lparr>source = ''p4'', relation = ''up'', target = ''g1''\<rparr>),
           (4, \<lparr>source = ''p5'', relation = ''up'', target = ''g1''\<rparr>)]
          (double_round (8 / 10)) (double_round (1 / 10)))
       (weighted_splitter_f64 stream_choice [3, 1, 4]
          [(0 :: nat, \<lparr>source = ''p1'', relation = ''up'', target = ''g1''\<rparr>),
           (1, \<lparr>source = ''p2'', relation = ''up'', target = ''g1''\<rparr>),
           (2, \<lparr>source = ''p3'', relation = ''up'', target = ''g1''\<rparr>),
           (3, \<lparr>source = ''p4'', relation = ''up'', target = ''g1''\<rparr>),
           (4, \<lparr>source = ''p5'', relation = ''up'', target = ''g1''\<rparr>)]
          (double_round (8 / 10)) (double_round (1 / 10)))
   \<and> expected_calls_f64
       [(0 :: nat, \<lparr>source = ''p1'', relation = ''up'', target = ''g1''\<rparr>),
        (1, \<lparr>source = ''p2'', relation = ''up'', target = ''g1''\<rparr>),
        (2, \<lparr>source = ''p3'', relation = ''up'', target = ''g1''\<rparr>),
        (3, \<lparr>source = ''p4'', relation = ''up'', target = ''g1''\<rparr>),
        (4, \<lparr>source = ''p5'', relation = ''up'', target = ''g1''\<rparr>)]
       (double_round (8 / 10)) (double_round (1 / 10))
     = [(5, 4), (1, 1), (0, 0)]
   \<and> (\<exists>splits g'.
        weighted_splitter_f64 stream_choice [3, 1, 4]
          [(0 :: nat, \<lparr>source = ''p1'', relation = ''up'', target = ''g1''\<rparr>),
           (1, \<lparr>source = ''p2'', relation = ''up'', target = ''g1''\<rparr>),
           (2, \<lparr>source = ''p3'', relation = ''up'', target = ''g1''\<rparr>),
           (3, \<lparr>source = ''p4'', relation = ''up'', target = ''g1''\<rparr>),
           (4, \<lparr>source = ''p5'', relation = ''up'', target = ''g1''\<rparr>)]
          (double_round (8 / 10)) (double_round (1 / 10)) = Inr (splits, g')
        \<and> weighted_splitter_f64 (logged stream_choice) ([3, 1, 4], [])
          [(0 :: nat, \<lparr>source = ''p1'', relation = ''up'', target = ''g1''\<rparr>),
           (1, \<lparr>source = ''p2'', relation = ''up'', target = ''g1''\<rparr>),
           (2, \<lparr>source = ''p3'', relation = ''up'', target = ''g1''\<rparr>),
           (3, \<lparr>source = ''p4'', relation = ''up'', target = ''g1''\<rparr>),
           (4, \<lparr>source = ''p5'', relation = ''up'', target = ''g1''\<rparr>)]
          (double_round (8 / 10)) (double_round (1 / 10))
          = Inr (splits, (g', [(5, 4), (1, 1), (0, 0)])))
   \<and> (\<exists>splits g'.
        weighted_splitter_f64 stream_choice [2, 7]
          [(0 :: nat, \<lparr>source = ''p1'', relation = ''up'', target = ''g1''\<rparr>),
           (1, \<lparr>source = ''p2'', relation = ''up'', target = ''g1''\<rparr>),
           (2, \<lparr>source = ''p3'', relation = ''up'', target = ''g1''\<rparr>),
           (3, \<lparr>source = ''p4'', relation = ''up'', target = ''g1''\<rparr>),
           (4, \<lparr>source = ''p5'', relation = ''up'', target = ''g1''\<rparr>)]
          (double_round (8 / 10)) (double_round (1 / 10)) = Inr (splits, g')
        \<and> weighted_splitter_f64 (logged stream_choice) ([2, 7], [])
          [(0 :: nat, \<lparr>source = ''p1'', relation = ''up'', target = ''g1''\<rparr>),
           (1, \<lparr>source = ''p2'', relation = ''up'', target = ''g1''\<rparr>),
           (2, \<lparr>source = ''p3'', relation = ''up'', target = ''g1''\<rparr>),
           (3, \<lparr>source = ''p4'', relation = ''up'', target = ''g1''\<rparr>),
           (4, \<lparr>source = ''p5'', relation = ''up'', target = ''g1''\<rparr>)]
          (double_round (8 / 10)) (double_round (1 / 10))
          = Inr (splits, (g', [(5, 4), (1, 1), (0, 0)])))"
proof -
  let ?e = "[(0 :: nat, \<lparr>source = ''p1'', relation = ''up'', target = ''g1''\<rparr>),
           (1, \<lparr>source = ''p2'', relation = ''up'', target = ''g1''\<rparr>),
           (2, \<lparr>source = ''p3'', relation = ''up'', target = ''g1''\<rparr>),
           (3, \<lparr>source = ''p4'', relation = ''up'', target = ''g1''\<rparr>),
           (4, \<lparr>source = ''p5'', relation = ''up'', target = ''g1''\<rparr>)]"
  let ?t = "double_round (8 / 10)"
  let ?v = "double_round (1 / 10)"
  have c: "expected_calls_f64 ?e ?t ?v = [(5, 4), (1, 1), (0, 0)]"
  proof -
    define E where "E = ?e"
    have t: "?t = 3602879701896397 / 4503599627370496" by code_simp
    have v: "?v = 3602879701896397 / 36028797018963968" by code_simp
    have rels: "unique_relations E = [''up'']" unfolding E_def by code_simp
    have n0: "count_relation ''up'' (drop_duplicates E) = 5" unfolding E_def by code_simp
    have s1: "sample_size_f64 (PyFloat (3602879701896397 / 4503599627370496)) 5 = 4"
      by code_simp
    have vf: "validation_fraction (3602879701896397 / 4503599627370496)
                (3602879701896397 / 36028797018963968) = 4503599627370497 / 9007199254740992"
      by code_simp
    have s2: "sample_size_f64 (PyFloat (4503599627370497 / 9007199254740992)) (Suc 0) = 1"
      by code_simp
    have s3: "sample_size_f64 (PyInt 1) 0 = 0" by (simp add: sample_size_f64_def)
    have "expected_calls_f64 E ?t ?v = [(5, 4), (1, 1), (0, 0)]"
      unfolding expected_calls_f64_def Let_def round_calls_f64_def rels t v vf
      by (simp add: n0 s1 s2 s3)
    then show ?thesis unfolding E_def .
  qed
  have al: "draws_alike (=) stream_choice stream_choice" by (rule draws_alike_refl)
  have same: "draws_alike (=) stream_choice stream_choice \<and> [3, 1, 4] = [3, 1, 4 :: nat]"
    using al by simp
  have d1: "is_double ?t" unfolding is_double_def by code_simp
  have d2: "is_double ?v" unfolding is_double_def by code_simp
  have r1: "0 < ?t" by code_simp
  have r2: "?t < 1" by code_simp
  have r3: "0 < ?v" by code_simp
  have r4: "?v < 1 - ?t" by code_simp
  have h: "valid_sampler stream_choice \<and> distinct (map fst ?e) \<and> ?e \<noteq> []
        \<and> length ?e < 2 ^ 53 \<and> is_double ?t \<and> is_double ?v
        \<and> 0 < ?t \<and> ?t < 1 \<and> 0 < ?v \<and> ?v < 1 - ?t"
    using stream_choice_valid d1 d2 r1 r2 r3 r4 by simp
  have r: "rel_sum (=) (rel_prod (=) (=))
       (weighted_splitter_f64 stream_choice [3, 1, 4] ?e ?t ?v)
       (weighted_splitter_f64 stream_choice [3, 1, 4] ?e ?t ?v)"
    by (rule weighted_splitter_reproducible
      [where ch = stream_choice and ?ch1.0 = stream_choice and ?ch2.0 = stream_choice
         and R = "(=)" and edgelist = ?e and g = "[]"
         and train_size = ?t and validation_size = ?v
         and ?g1.0 = "[3, 1, 4]" and ?g2.0 = "[3, 1, 4]",
       THEN conjunct1, THEN mp, OF same])
  have a: "\<exists>splits g'.
        weighted_splitter_f64 stream_choice [3, 1, 4] ?e ?t ?v = Inr (splits, g')
        \<and> weighted_splitter_f64 (logged stream_choice) ([3, 1, 4], []) ?e ?t ?v
          = Inr (splits, (g', expected_calls_f64 ?e ?t ?v))"
    by (rule weighted_splitter_reproducible
      [where ch = stream_choice and ?ch1.0 = stream_choice and ?ch2.0 = stream_choice
         and R = "(=)" and edgelist = ?e and g = "[3, 1, 4]"
         and train_size = ?t and validation_size = ?v
         and ?g1.0 = "[]" and ?g2.0 = "[]",
       THEN conjunct2, THEN conjunct2, THEN conjunct2, THEN conjunct2, THEN mp, OF h])
  have b: "\<exists>splits g'.
        weighted_splitter_f64 stream_choice [2, 7] ?e ?t ?v = Inr (splits, g')
        \<and> weighted_splitter_f64 (logged stream_choice) ([2, 7], []) ?e ?t ?v
          = Inr (splits, (g', expected_calls_f64 ?e ?t ?v))"
    by (rule weighted_splitter_reproducible
      [where ch = stream_choice and ?ch1.0 = stream_choice and ?ch2.0 = stream_choice
         and R = "(=)" and edgelist = ?e and g = "[2, 7]"
         and train_size = ?t and validation_size = ?v
         and ?g1.0 = "[]" and ?g2.0 = "[]",
       THEN conjunct2, THEN conjunct2, THEN conjunct2, THEN conjunct2, THEN mp, OF h])
  show ?thesis using al r a b unfolding c by (intro conjI) (rule refl | assumption)+
qed

subsection \<open>The labeled-node mapping\<close>

lemma fold_update_find:
  "distinct (map key xs) \<Longrightarrow>
     fold (\<lambda>x m. m(key x \<mapsto> val x)) xs m k
       = (case find (\<lambda>x. key x = k) xs of None \<Rightarrow> m k | Some x \<Rightarrow> Some (val x))"
proof (induction xs arbitrary: m)
  case Nil
  then show ?case by simp
next
  case (Cons x xs)
  show ?case
  proof (cases "key x = k")
    case True
    have "key x \<notin> key ` set xs" using Cons.prems by simp
    then have "\<forall>y \<in> set xs. key y \<noteq> k" using True by (auto simp: image_iff)
    then have "find (\<lambda>y. key y = k) xs = None" by (simp add: find_None_iff)
    then show ?thesis using Cons True by simp
  next
    case False
    then show ?thesis using Cons by simp
  qed
qed

lemma notna_label_find:
  "find (\<lambda>(i, e, v). source e = s) (notna_label rows)
     = (case find (\<lambda>(i, e, l). source e = s \<and> l \<noteq> None) rows of
          None \<Rightarrow> None
        | Some (i, e, l) \<Rightarrow> map_option (\<lambda>v. (i, e, v)) l)"
proof (induction rows)
  case Nil
  then show ?case by (simp add: notna_label_def map_filter_simps)
next
  case (Cons row rows)
  obtain i e l where row: "row = (i, e, l)" by (cases row)
  show ?case
  proof (cases l)
    case None
    then show ?thesis using Cons row by (simp add: notna_label_def map_filter_simps)
  next
    case (Some v)
    then show ?thesis using Cons row by (simp add: notna_label_def map_filter_simps)
  qed
qed

lemma label_mapping_first:
  "label_mapping rows s
     = (case find (\<lambda>(i, e, l). source e = s \<and> l \<noteq> None) rows of
          None \<Rightarrow> None
        | Some (i, e, l) \<Rightarrow> l)"
proof -
  let ?key = "\<lambda>(i, e, v). source e"
  let ?val = "\<lambda>(i, e, v). v"
  have f: "(\<lambda>(i, e, v) m. m(source e \<mapsto> v)) = (\<lambda>x m. m(?key x \<mapsto> ?val x))"
    by (auto simp: fun_eq_iff)
  have d: "distinct (map ?key (unique_nodes rows))"
    unfolding unique_nodes_def by (rule drop_dups_by_distinct)
  have "label_mapping rows s
      = (case find (\<lambda>x. ?key x = s) (unique_nodes rows) of None \<Rightarrow> None | Some x \<Rightarrow> Some (?val x))"
    unfolding label_mapping_def f using fold_update_find [OF d, of ?val Map.empty s] by simp
  also have "find (\<lambda>x. ?key x = s) (unique_nodes rows) = find (\<lambda>x. ?key x = s) (notna_label rows)"
    unfolding unique_nodes_def by (rule drop_dups_by_find) simp
  also have "(\<lambda>x. ?key x = s) = (\<lambda>(i, e, v). source e = s)" by (auto simp: fun_eq_iff)
  finally show ?thesis
    unfolding notna_label_find
    by (auto split: option.splits)
qed

lemma notna_label_set:
  "set (notna_label rows) = {(i, e, v) | i e v. (i, e, Some v) \<in> set rows}"
proof (induction rows)
  case Nil
  then show ?case by (simp add: notna_label_def map_filter_simps)
next
  case (Cons row rows)
  obtain i e l where row: "row = (i, e, l)" by (cases row)
  have step: "notna_label (row # rows)
      = (case l of None \<Rightarrow> notna_label rows | Some v \<Rightarrow> (i, e, v) # notna_label rows)"
    using row by (simp add: notna_label_def map_filter_simps split: option.splits)
  show ?case unfolding step using Cons row by (cases l) auto
qed

lemma unique_nodes_sources:
  "set (map (\<lambda>(i, e, v). source e) (unique_nodes rows))
     = {source e | i e l. (i, e, l) \<in> set rows \<and> l \<noteq> None}"
proof -
  have "set (map (\<lambda>(i, e, v). source e) (unique_nodes rows))
      = (\<lambda>(i, e, v). source e) ` set (notna_label rows)"
    unfolding unique_nodes_def drop_dups_by_keys by simp
  also have "\<dots> = {source e | i e l. (i, e, l) \<in> set rows \<and> l \<noteq> None}"
  proof (rule set_eqI)
    fix s
    show "s \<in> (\<lambda>(i, e, v). source e) ` set (notna_label rows)
        \<longleftrightarrow> s \<in> {source e | i e l. (i, e, l) \<in> set rows \<and> l \<noteq> None}"
    proof
      assume "s \<in> (\<lambda>(i, e, v). source e) ` set (notna_label rows)"
      then obtain i e v where "(i, e, v) \<in> set (notna_label rows)" "s = source e" by auto
      then have "(i, e, Some v) \<in> set rows" "s = source e" unfolding notna_label_set by auto
      then show "s \<in> {source e | i e l. (i, e, l) \<in> set rows \<and> l \<noteq> None}" by blast
    next
      assume "s \<in> {source e | i e l. (i, e, l) \<in> set rows \<and> l \<noteq> None}"
      then obtain i e v where "(i, e, Some v) \<in> set rows" "s = source e" by auto
      then have "(i, e, v) \<in> set (notna_label rows)" unfolding notna_label_set by auto
      then show "s \<in> (\<lambda>(i, e, v). source e) ` set (notna_label rows)"
        using \<open>s = source e\<close> by force
    qed
  qed
  finally show ?thesis .
qed

lemma find_SomeD: "find P xs = Some x \<Longrightarrow> x \<in> set xs \<and> P x"
  by (induction xs) (auto split: if_splits)

lemma labelled_source_iff:
  "s \<in> {source e | i e l. (i, e, l) \<in> set rows \<and> l \<noteq> None}
     \<longleftrightarrow> (\<exists>x. x \<in> set rows \<and> (case x of (i, e, l) \<Rightarrow> source e = s \<and> l \<noteq> None))"
proof
  assume "s \<in> {source e | i e l. (i, e, l) \<in> set rows \<and> l \<noteq> None}"
  then have "\<exists>i e l. s = source e \<and> (i, e, l) \<in> set rows \<and> l \<noteq> None"
    by (simp only: mem_Collect_eq)
  then obtain i e l where m: "(i, e, l) \<in> set rows" "source e = s" "l \<noteq> None"
    by (elim exE conjE) simp
  show "\<exists>x. x \<in> set rows \<and> (case x of (i, e, l) \<Rightarrow> source e = s \<and> l \<noteq> None)"
    using m by (intro exI [of _ "(i, e, l)"]) simp
next
  assume "\<exists>x. x \<in> set rows \<and> (case x of (i, e, l) \<Rightarrow> source e = s \<and> l \<noteq> None)"
  then obtain x where x: "x \<in> set rows" "case x of (i, e, l) \<Rightarrow> source e = s \<and> l \<noteq> None"
    by (elim exE conjE)
  obtain i e l where r: "x = (i, e, l)" by (cases x)
  have "s = source e \<and> (i, e, l) \<in> set rows \<and> l \<noteq> None" using x r by simp
  then have "\<exists>i e l. s = source e \<and> (i, e, l) \<in> set rows \<and> l \<noteq> None"
    by (intro exI [of _ i] exI [of _ e] exI [of _ l])
  then show "s \<in> {source e | i e l. (i, e, l) \<in> set rows \<and> l \<noteq> None}"
    by (simp only: mem_Collect_eq)
qed

lemma label_mapping_dom:
  "dom (label_mapping rows) = {source e | i e l. (i, e, l) \<in> set rows \<and> l \<noteq> None}"
proof (rule set_eqI)
  fix s
  let ?P = "\<lambda>(i, e, l). source e = s \<and> l \<noteq> None"
  show "s \<in> dom (label_mapping rows)
      \<longleftrightarrow> s \<in> {source e | i e l. (i, e, l) \<in> set rows \<and> l \<noteq> None}"
    unfolding labelled_source_iff
  proof (cases "find ?P rows")
    case None
    then have no: "\<not> (\<exists>x. x \<in> set rows \<and> ?P x)" unfolding find_None_iff .
    have "label_mapping rows s = None" unfolding label_mapping_first None by simp
    then have "s \<notin> dom (label_mapping rows)" by (simp add: dom_def)
    then show "s \<in> dom (label_mapping rows) \<longleftrightarrow> (\<exists>x. x \<in> set rows \<and> ?P x)"
      using no by simp
  next
    case (Some row)
    obtain i e l where r: "row = (i, e, l)" by (cases row)
    have rin: "row \<in> set rows" and pr: "?P row"
      using find_SomeD [OF Some] by simp_all
    have ex: "\<exists>x. x \<in> set rows \<and> ?P x" using rin pr by (intro exI conjI)
    have "l \<noteq> None" using pr r by simp
    moreover have "label_mapping rows s = l" unfolding label_mapping_first Some r by simp
    ultimately have "s \<in> dom (label_mapping rows)" by (simp add: dom_def)
    then show "s \<in> dom (label_mapping rows) \<longleftrightarrow> (\<exists>x. x \<in> set rows \<and> ?P x)"
      using ex by simp
  qed
qed

text \<open>
  Claim C3. The keys of the labeled-node mapping are exactly the sources of the rows whose
  label is present; the mapping is built from a list holding each of these sources once;
  and the label stored for a source is the label of the first row, in the order of the
  edgelist, that has this source and a label.
\<close>

theorem label_mapping_first_wins:
  "dom (label_mapping rows) = {source e | i e l. (i, e, l) \<in> set rows \<and> l \<noteq> None}
   \<and> distinct (map (\<lambda>(i, e, v). source e) (unique_nodes rows))
   \<and> set (map (\<lambda>(i, e, v). source e) (unique_nodes rows)) = dom (label_mapping rows)
   \<and> label_mapping rows s
       = (case find (\<lambda>(i, e, l). source e = s \<and> l \<noteq> None) rows of
            None \<Rightarrow> None
          | Some (i, e, l) \<Rightarrow> l)"
proof (intro conjI)
  show "dom (label_mapping rows) = {source e | i e l. (i, e, l) \<in> set rows \<and> l \<noteq> None}"
    by (rule label_mapping_dom)
  show "distinct (map (\<lambda>(i, e, v). source e) (unique_nodes rows))"
    unfolding unique_nodes_def by (rule drop_dups_by_distinct)
  show "set (map (\<lambda>(i, e, v). source e) (unique_nodes rows)) = dom (label_mapping rows)"
    unfolding label_mapping_dom by (rule unique_nodes_sources)
  show "label_mapping rows s
       = (case find (\<lambda>(i, e, l). source e = s \<and> l \<noteq> None) rows of
            None \<Rightarrow> None
          | Some (i, e, l) \<Rightarrow> l)"
    by (rule label_mapping_first)
qed

text \<open>
  The source \<open>p1\<close> has an unlabelled row, then the label \<open>case\<close>, then \<open>control\<close>: the
  mapping holds \<open>case\<close>. A node that is never a source has no entry.
\<close>

theorem label_mapping_first_wins_witness:
  "label_mapping
     [(0 :: nat, \<lparr>source = ''p1'', relation = ''up'', target = ''g1''\<rparr>, None),
      (1, \<lparr>source = ''p1'', relation = ''down'', target = ''g2''\<rparr>, Some ''case''),
      (2, \<lparr>source = ''p2'', relation = ''up'', target = ''g1''\<rparr>, Some ''control''),
      (3, \<lparr>source = ''p1'', relation = ''up'', target = ''g3''\<rparr>, Some ''control'')] ''p1''
     = Some ''case''
   \<and> label_mapping
     [(0 :: nat, \<lparr>source = ''p1'', relation = ''up'', target = ''g1''\<rparr>, None),
      (1, \<lparr>source = ''p1'', relation = ''down'', target = ''g2''\<rparr>, Some ''case''),
      (2, \<lparr>source = ''p2'', relation = ''up'', target = ''g1''\<rparr>, Some ''control''),
      (3, \<lparr>source = ''p1'', relation = ''up'', target = ''g3''\<rparr>, Some ''control'')] ''g1''
     = None"
  using label_mapping_first_wins
      [of "[(0 :: nat, \<lparr>source = ''p1'', relation = ''up'', target = ''g1''\<rparr>, None),
      (1, \<lparr>source = ''p1'', relation = ''down'', target = ''g2''\<rparr>, Some ''case''),
      (2, \<lparr>source = ''p2'', relation = ''up'', target = ''g1''\<rparr>, Some ''control''),
      (3, \<lparr>source = ''p1'', relation = ''up'', target = ''g3''\<rparr>, Some ''control'')]" "''p1''"]
    label_mapping_first_wins
      [of "[(0 :: nat, \<lparr>source = ''p1'', relation = ''up'', target = ''g1''\<rparr>, None),
      (1, \<lparr>source = ''p1'', relation = ''down'', target = ''g2''\<rparr>, Some ''case''),
      (2, \<lparr>source = ''p2'', relation = ''up'', target = ''g1''\<rparr>, Some ''control''),
      (3, \<lparr>source = ''p1'', relation = ''up'', target = ''g3''\<rparr>, Some ''control'')]" "''g1''"]
  by simp

subsection \<open>The keys of the configuration\<close>

lemma read_config_first_missing:
  "find (\<lambda>k. model_config k = None) (map snd kws) = Some key \<Longrightarrow>
     read_config model_config kws = Inl (KeyError key)"
proof (induction kws)
  case Nil
  then show ?case by simp
next
  case (Cons p kws)
  obtain kw k where p: "p = (kw, k)" by (cases p)
  show ?case
  proof (cases "model_config k")
    case None
    then show ?thesis using Cons.prems p by simp
  next
    case (Some v)
    then have "find (\<lambda>k. model_config k = None) (map snd kws) = Some key"
      using Cons.prems p by simp
    then show ?thesis using Cons.IH Some p by simp
  qed
qed

lemma find_exists: "x \<in> set xs \<Longrightarrow> P x \<Longrightarrow> \<exists>y. find P xs = Some y"
  by (induction xs) auto

lemma config_keys:
  "map snd config_kwargs =
     [''model'', ''model_kwargs'', ''model_kwargs_ranges'', ''loss_function'', ''loss_kwargs'',
      ''loss_kwargs_ranges'', ''regularizer'', ''optimizer'', ''optimizer_kwargs'',
      ''optimizer_kwargs_ranges'', ''training_loop'', ''training_loop_kwargs'',
      ''training_kwargs'', ''training_kwargs_ranges'', ''negative_sampler'',
      ''negative_sampler_kwargs'', ''negative_sampler_kwargs_ranges'', ''stopper'',
      ''stopper_kwargs'', ''evaluator'', ''evaluator_kwargs'', ''evaluation_kwargs'',
      ''n_trials'', ''timeout'', ''metric'', ''direction'', ''sampler'', ''pruner'']"
  by (simp add: config_kwargs_def)

text \<open>
  Claim C10. When any of the 28 keys is missing from \<open>model_config\<close>, \<open>run_optimization\<close>
  raises \<open>KeyError\<close> for the first missing key in the order of the call, whatever the
  external optimizer would do: the optimizer is not reached.
\<close>

theorem run_optimization_requires_every_key:
  assumes "key \<in> set
     [''model'', ''model_kwargs'', ''model_kwargs_ranges'', ''loss_function'', ''loss_kwargs'',
      ''loss_kwargs_ranges'', ''regularizer'', ''optimizer'', ''optimizer_kwargs'',
      ''optimizer_kwargs_ranges'', ''training_loop'', ''training_loop_kwargs'',
      ''training_kwargs'', ''training_kwargs_ranges'', ''negative_sampler'',
      ''negative_sampler_kwargs'', ''negative_sampler_kwargs_ranges'', ''stopper'',
      ''stopper_kwargs'', ''evaluator'', ''evaluator_kwargs'', ''evaluation_kwargs'',
      ''n_trials'', ''timeout'', ''metric'', ''direction'', ''sampler'', ''pruner'']"
    and "model_config key = None"
  shows "\<exists>missing. model_config missing = None
           \<and> find (\<lambda>k. model_config k = None) (map snd config_kwargs) = Some missing
           \<and> run_optimization ext w dataset model_config out_dir = Inl (KeyError missing)"
proof -
  have "key \<in> set (map snd config_kwargs)" using assms(1) unfolding config_keys .
  then obtain missing where
    f: "find (\<lambda>k. model_config k = None) (map snd config_kwargs) = Some missing"
    using find_exists [of key "map snd config_kwargs" "\<lambda>k. model_config k = None"] assms(2)
    by blast
  have m: "model_config missing = None" using find_SomeD [OF f] by simp
  have r: "read_config model_config config_kwargs = Inl (KeyError missing)"
    using f by (rule read_config_first_missing)
  have "run_optimization ext w dataset model_config out_dir = Inl (KeyError missing)"
    using r by (simp add: run_optimization_def split: prod.splits)
  then show ?thesis using m f by simp
qed

text \<open>A configuration with every key but \<open>timeout\<close>.\<close>

theorem run_optimization_requires_every_key_witness:
  "''timeout'' \<in> set
     [''model'', ''model_kwargs'', ''model_kwargs_ranges'', ''loss_function'', ''loss_kwargs'',
      ''loss_kwargs_ranges'', ''regularizer'', ''optimizer'', ''optimizer_kwargs'',
      ''optimizer_kwargs_ranges'', ''training_loop'', ''training_loop_kwargs'',
      ''training_kwargs'', ''training_kwargs_ranges'', ''negative_sampler'',
      ''negative_sampler_kwargs'', ''negative_sampler_kwargs_ranges'', ''stopper'',
      ''stopper_kwargs'', ''evaluator'', ''evaluator_kwargs'', ''evaluation_kwargs'',
      ''n_trials'', ''timeout'', ''metric'', ''direction'', ''sampler'', ''pruner'']
   \<and> (\<lambda>k. if k = ''timeout'' then None else Some (0 :: nat)) ''timeout'' = None
   \<and> run_optimization (succeeding_externals \<lparr>model = \<lparr>entity_to_id = [], entity_representations = ([] :: nat ndarray list)\<rparr>\<rparr>)
        [] (''train'', ''validation'', ''test'')
        (\<lambda>k. if k = ''timeout'' then None else Some (0 :: nat)) ''out''
      = Inl (KeyError ''timeout'')"
proof -
  let ?cfg = "\<lambda>k. if k = ''timeout'' then None else Some (0 :: nat)"
  have k: "''timeout'' \<in> set
     [''model'', ''model_kwargs'', ''model_kwargs_ranges'', ''loss_function'', ''loss_kwargs'',
      ''loss_kwargs_ranges'', ''regularizer'', ''optimizer'', ''optimizer_kwargs'',
      ''optimizer_kwargs_ranges'', ''training_loop'', ''training_loop_kwargs'',
      ''training_kwargs'', ''training_kwargs_ranges'', ''negative_sampler'',
      ''negative_sampler_kwargs'', ''negative_sampler_kwargs_ranges'', ''stopper'',
      ''stopper_kwargs'', ''evaluator'', ''evaluator_kwargs'', ''evaluation_kwargs'',
      ''n_trials'', ''timeout'', ''metric'', ''direction'', ''sampler'', ''pruner'']"
    by simp
  have n: "?cfg ''timeout'' = None" by simp
  let ?ext = "succeeding_externals
      \<lparr>model = \<lparr>entity_to_id = [], entity_representations = ([] :: nat ndarray list)\<rparr>\<rparr>
      :: (nat list, nat, unit, nat) externals"
  obtain missing where m: "?cfg missing = None"
    and r: "run_optimization ?ext [] (''train'', ''validation'', ''test'') ?cfg ''out''
              = Inl (KeyError missing)"
    using run_optimization_requires_every_key
      [of "''timeout''" ?cfg ?ext "[]" "(''train'', ''validation'', ''test'')" "''out''", OF k n]
    by (elim exE conjE)
  have "missing = ''timeout''" using m by (simp split: if_splits)
  then show ?thesis using k r by simp
qed

subsection \<open>The label column\<close>

text \<open>
  Claim C8, as amended. \<open>do_kge\<close> requires the \<open>label\<close> column: for every edgelist that has
  only the three edge columns it raises \<open>KeyError\<close> on \<open>label\<close> at its first statement on
  the edgelist. With the column present, whatever cells are missing, neither the column
  access nor the dropping of the column raises.
\<close>

theorem do_kge_requires_label_column:
  "do_kge ext w (WithoutLabel rows) design out model_config return_patients train_size
       validation_size = Inl (KeyError ''label'')
   \<and> label_column (WithLabel labelled) = Inr labelled
   \<and> drop_label (WithLabel labelled) = Inr (map (\<lambda>(i, e, l). (i, e)) labelled)"
  by (simp add: do_kge_def label_column_def drop_label_def)

text \<open>An edgelist of one row without the column.\<close>

theorem do_kge_requires_label_column_witness:
  "do_kge
     (succeeding_externals
        \<lparr>model = \<lparr>entity_to_id = [(''p1'', 0)],
                   entity_representations = [\<lparr>shape1 = 1, array_rows = [[5 :: int]]\<rparr>]\<rparr>\<rparr>
       :: (nat list, nat, unit, int) externals)
     [] (WithoutLabel [(7 :: nat, \<lparr>source = ''p1'', relation = ''up'', target = ''g1''\<rparr>)]
           :: (nat, string) edgelist)
     [(''FileName'', [''p1''])] ''out'' (\<lambda>k. Some (0 :: nat)) False (8 / 10) (1 / 10)
   = (Inl (KeyError ''label'') :: error + (int, string) table \<times> nat list)"
  by (rule do_kge_requires_label_column [THEN conjunct1])

text \<open>
  Claim C8, as stated, fails: on an edgelist with only the columns \<open>source\<close>, \<open>relation\<close>
  and \<open>target\<close>, with every external call set to succeed, \<open>do_kge\<close> raises \<open>KeyError\<close> on
  \<open>label\<close>.
\<close>

theorem do_kge_missing_label_column_counterexample:
  "do_kge
     (succeeding_externals
        \<lparr>model = \<lparr>entity_to_id = [(''p1'', 0), (''g1'', 1)],
                   entity_representations = [\<lparr>shape1 = 1, array_rows = [[5 :: int], [6]]\<rparr>]\<rparr>\<rparr>)
     [] (WithoutLabel
           [(0 :: nat, \<lparr>source = ''p1'', relation = ''up'', target = ''g1''\<rparr>),
            (1, \<lparr>source = ''p2'', relation = ''up'', target = ''g1''\<rparr>)]
           :: (nat, string) edgelist)
     [(''FileName'', [''p1'', ''p2''])] ''out'' (\<lambda>k. Some (0 :: nat)) True (8 / 10) (1 / 10)
   = Inl (KeyError ''label'')"
  by (simp add: do_kge_def label_column_def)

subsection \<open>The embedding table\<close>

lemma id_of_key: "distinct (map fst d) \<Longrightarrow> (k, i) \<in> set d \<Longrightarrow> id_of d k = i"
  by (simp add: id_of_def)

lemma ids_of_keys: "distinct (map fst d) \<Longrightarrow> map (id_of d) (map fst d) = map snd d"
  by (simp add: id_of_key)

lemma index_in_id_order:
  assumes "distinct (map fst d)" and "set (map snd d) = {..<length d}"
  shows "map (id_of d) (sort_key (id_of d) (map fst d)) = [0..<length d]"
proof -
  let ?ix = "sort_key (id_of d) (map fst d)"
  have s: "sorted (map (id_of d) ?ix)" by (rule sorted_sort_key)
  have "set (map (id_of d) ?ix) = set (map (id_of d) (map fst d))"
    by (simp only: set_map set_sort)
  then have st: "set (map (id_of d) ?ix) = {..<length d}"
    using ids_of_keys [OF assms(1)] assms(2) by simp
  have "length (map (id_of d) ?ix) = length d" by simp
  then have "card (set (map (id_of d) ?ix)) = length (map (id_of d) ?ix)"
    using st by simp
  then have di: "distinct (map (id_of d) ?ix)" by (rule card_distinct)
  have "set (map (id_of d) ?ix) = set [0..<length d]" using st by auto
  then show ?thesis
    using s di sorted_distinct_set_unique [of "map (id_of d) ?ix" "[0..<length d]"] by simp
qed

lemma row_of_id:
  assumes "distinct (map fst d)" and "set (map snd d) = {..<length d}" and "i < length d"
  shows "map_of d (sort_key (id_of d) (map fst d) ! i) = Some i"
proof -
  let ?ix = "sort_key (id_of d) (map fst d)"
  have li: "i < length ?ix" using assms(3) by simp
  have "map (id_of d) ?ix ! i = [0..<length d] ! i"
    using index_in_id_order [OF assms(1,2)] by simp
  then have idi: "id_of d (?ix ! i) = i" using li assms(3) by simp
  have "?ix ! i \<in> set ?ix" using li by (rule nth_mem)
  then have "?ix ! i \<in> fst ` set d" by simp
  then obtain j where "(?ix ! i, j) \<in> set d" by auto
  then have m: "map_of d (?ix ! i) = Some j" using assms(1) by simp
  then have "id_of d (?ix ! i) = j" by (simp add: id_of_def)
  then show ?thesis using m idi by simp
qed

lemma embedding_frame_ok:
  assumes "entity_representations best_model = embedding_values # others"
    and "length (array_rows embedding_values) = length (entity_to_id best_model)"
  shows "embedding_frame best_model =
     Inr \<lparr>columns = map (\<lambda>i. ''Component_'' @ str_nat i) [1..<shape1 embedding_values + 1],
          entries = zip (sort_key (id_of (entity_to_id best_model))
                           (map fst (entity_to_id best_model)))
                        (map (map Num) (array_rows embedding_values))\<rparr>"
  using assms by (simp add: embedding_frame_def model_to_numpy_def pd_DataFrame_def)

lemma do_kge_after_fit:
  assumes "split_and_fit ext w (map (\<lambda>(i, e, l). (i, e)) labelled) out model_config
             train_size validation_size = Inr (best_model, w')"
  shows "do_kge ext w (WithLabel labelled) design out model_config return_patients
           train_size validation_size
     = (case embedding_frame best_model of
          Inl e \<Rightarrow> Inl e
        | Inr embedding \<Rightarrow>
            if return_patients then
              (case patients_only design (label_mapping labelled) embedding of
                 Inl e \<Rightarrow> Inl e
               | Inr t \<Rightarrow> Inr (t, w'))
            else Inr (embedding, w'))"
  using assms by (simp add: do_kge_def label_column_def drop_label_def)

text \<open>
  Claim C7, as amended. When the split, the optimization and the final training succeed
  and the embedding matrix has one row per entity, the table \<open>do_kge\<close> builds, and returns
  as it is when \<open>return_patients\<close> is false, has the columns \<open>Component_1\<close> to \<open>Component_k\<close>,
  \<open>k\<close> the second dimension of the matrix, and is indexed by the entity names sorted by
  their internal index, row by row with the matrix: when the indices are \<open>0\<close> to \<open>n - 1\<close>,
  the \<open>i\<close>-th index label is the entity whose index is \<open>i\<close>.
\<close>

theorem do_kge_embedding_table:
  assumes "split_and_fit ext w (map (\<lambda>(i, e, l). (i, e)) labelled) out model_config
             train_size validation_size = Inr (best_model, w')"
    and "entity_representations best_model = embedding_values # others"
    and "length (array_rows embedding_values) = length (entity_to_id best_model)"
  shows "\<exists>embedding.
      do_kge ext w (WithLabel labelled) design out model_config False train_size validation_size
        = Inr (embedding, w')
      \<and> columns embedding
          = map (\<lambda>i. ''Component_'' @ str_nat i) [1..<shape1 embedding_values + 1]
      \<and> length (columns embedding) = shape1 embedding_values
      \<and> map fst (entries embedding)
          = sort_key (id_of (entity_to_id best_model)) (map fst (entity_to_id best_model))
      \<and> sorted (map (id_of (entity_to_id best_model)) (map fst (entries embedding)))
      \<and> map snd (entries embedding) = map (map Num) (array_rows embedding_values)
      \<and> (distinct (map fst (entity_to_id best_model))
           \<and> set (map snd (entity_to_id best_model)) = {..<length (entity_to_id best_model)}
          \<longrightarrow> (\<forall>i < length (entity_to_id best_model).
                 map_of (entity_to_id best_model) (map fst (entries embedding) ! i) = Some i))"
proof -
  let ?d = "entity_to_id best_model"
  let ?ix = "sort_key (id_of ?d) (map fst ?d)"
  let ?emb = "\<lparr>columns = map (\<lambda>i. ''Component_'' @ str_nat i) [1..<shape1 embedding_values + 1],
          entries = zip ?ix (map (map Num) (array_rows embedding_values))\<rparr>"
  have ef: "embedding_frame best_model = Inr ?emb"
    using assms(2,3) by (rule embedding_frame_ok)
  have run: "do_kge ext w (WithLabel labelled) design out model_config False train_size
      validation_size = Inr (?emb, w')"
    unfolding do_kge_after_fit [OF assms(1)] ef by simp
  have len: "length ?ix = length (map (map Num) (array_rows embedding_values))"
    using assms(3) by simp
  have ix: "map fst (entries ?emb) = ?ix" using len by simp
  have vs: "map snd (entries ?emb) = map (map Num) (array_rows embedding_values)"
    using len by simp
  have so: "sorted (map (id_of ?d) (map fst (entries ?emb)))"
    unfolding ix by (rule sorted_sort_key)
  have ord: "\<forall>i < length ?d. map_of ?d (map fst (entries ?emb) ! i) = Some i"
    if "distinct (map fst ?d) \<and> set (map snd ?d) = {..<length ?d}"
    unfolding ix using row_of_id that by blast
  have cl: "columns ?emb
      = map (\<lambda>i. ''Component_'' @ str_nat i) [1..<shape1 embedding_values + 1]"
    by (simp only: table.simps)
  have ln: "length (columns ?emb) = shape1 embedding_values"
    unfolding cl by simp
  show ?thesis
    by (intro exI [of _ ?emb] conjI impI) (rule run cl ln ix so vs | erule ord)+
qed

text \<open>
  Three entities whose dictionary order (\<open>g1\<close>, \<open>p1\<close>, \<open>p2\<close>) differs from their index
  order (\<open>p1\<close>, \<open>g1\<close>, \<open>p2\<close>), with embeddings of dimension 2.
\<close>

theorem do_kge_embedding_table_witness:
  "\<exists>embedding.
     do_kge
       (succeeding_externals
          \<lparr>model = \<lparr>entity_to_id = [(''g1'', 1), (''p1'', 0), (''p2'', 2)],
                     entity_representations =
                       [\<lparr>shape1 = 2, array_rows = [[5 :: int, 6], [7, 8], [9, 10]]\<rparr>]\<rparr>\<rparr>
         :: (nat list, nat, unit, int) externals)
       [3, 1, 4]
       (WithLabel
          [(0 :: nat, \<lparr>source = ''p1'', relation = ''up'', target = ''g1''\<rparr>, Some ''case''),
           (1, \<lparr>source = ''p2'', relation = ''up'', target = ''g1''\<rparr>, Some ''control''),
           (2, \<lparr>source = ''p1'', relation = ''down'', target = ''g1''\<rparr>, Some ''case'')])
       [(''FileName'', [''p1'', ''p2''])] ''out'' (\<lambda>k. Some (0 :: nat)) False (8 / 10) (1 / 10)
     = Inr (embedding, [])
     \<and> columns embedding = [''Component_1'', ''Component_2'']
     \<and> map fst (entries embedding) = [''p1'', ''g1'', ''p2'']
     \<and> map snd (entries embedding)
         = [[Num 5, Num 6], [Num 7, Num 8], [Num 9, Num 10 :: (int, string) cell]]"
proof -
  let ?m = "\<lparr>entity_to_id = [(''g1'', 1), (''p1'', 0), (''p2'', 2)],
             entity_representations =
               [\<lparr>shape1 = 2, array_rows = [[5 :: int, 6], [7, 8], [9, 10]]\<rparr>]\<rparr>"
  let ?ext = "succeeding_externals \<lparr>model = ?m\<rparr> :: (nat list, nat, unit, int) externals"
  let ?rows = "[(0 :: nat, \<lparr>source = ''p1'', relation = ''up'', target = ''g1''\<rparr>, Some ''case''),
           (1, \<lparr>source = ''p2'', relation = ''up'', target = ''g1''\<rparr>, Some ''control''),
           (2, \<lparr>source = ''p1'', relation = ''down'', target = ''g1''\<rparr>, Some ''case'')]"
  have fit: "split_and_fit ?ext [3, 1, 4] (map (\<lambda>(i, e, l). (i, e)) ?rows) ''out''
      (\<lambda>k. Some (0 :: nat)) (8 / 10) (1 / 10) = Inr (?m, [])"
    by code_simp
  have rep: "entity_representations ?m
      = \<lparr>shape1 = 2, array_rows = [[5 :: int, 6], [7, 8], [9, 10]]\<rparr> # []"
    by simp
  have shape: "length (array_rows \<lparr>shape1 = 2, array_rows = [[5 :: int, 6], [7, 8], [9, 10]]\<rparr>)
      = length (entity_to_id ?m)"
    by simp
  obtain embedding :: "(int, string) table" where
    r: "do_kge ?ext [3, 1, 4] (WithLabel ?rows) [(''FileName'', [''p1'', ''p2''])] ''out''
          (\<lambda>k. Some (0 :: nat)) False (8 / 10) (1 / 10) = Inr (embedding, [])"
    and c: "columns embedding = map (\<lambda>i. ''Component_'' @ str_nat i)
          [1..<shape1 \<lparr>shape1 = 2, array_rows = [[5 :: int, 6], [7, 8], [9, 10]]\<rparr> + 1]"
    and i: "map fst (entries embedding)
          = sort_key (id_of (entity_to_id ?m)) (map fst (entity_to_id ?m))"
    and v: "map snd (entries embedding)
          = map (map Num) (array_rows \<lparr>shape1 = 2, array_rows = [[5 :: int, 6], [7, 8], [9, 10]]\<rparr>)"
    using do_kge_embedding_table [OF fit rep shape, of "[(''FileName'', [''p1'', ''p2''])]"]
    by (elim exE conjE)
  have c': "map (\<lambda>i. ''Component_'' @ str_nat i)
          [1..<shape1 \<lparr>shape1 = 2, array_rows = [[5 :: int, 6], [7, 8], [9, 10]]\<rparr> + 1]
      = [''Component_1'', ''Component_2'']"
    by code_simp
  have i': "sort_key (id_of (entity_to_id ?m)) (map fst (entity_to_id ?m)) = [''p1'', ''g1'', ''p2'']"
    by code_simp
  have v': "map (map Num) (array_rows \<lparr>shape1 = 2, array_rows = [[5 :: int, 6], [7, 8], [9, 10]]\<rparr>)
      = [[Num 5, Num 6], [Num 7, Num 8], [Num 9, Num 10 :: (int, string) cell]]"
    by simp
  show ?thesis
    by (intro exI [of _ embedding] conjI) (rule r | simp only: c c' i i' v v')+
qed

text \<open>
  Claim C7, as stated of the returned table, fails when \<open>return_patients\<close> is set: the
  returned table has the further column \<open>label\<close> and only the rows of the patients.
\<close>

theorem do_kge_returned_table_counterexample:
  "do_kge
       (succeeding_externals
          \<lparr>model = \<lparr>entity_to_id = [(''g1'', 1), (''p1'', 0), (''p2'', 2)],
                     entity_representations =
                       [\<lparr>shape1 = 2, array_rows = [[5 :: int, 6], [7, 8], [9, 10]]\<rparr>]\<rparr>\<rparr>
         :: (nat list, nat, unit, int) externals)
       [3, 1, 4]
       (WithLabel
          [(0 :: nat, \<lparr>source = ''p1'', relation = ''up'', target = ''g1''\<rparr>, Some ''case''),
           (1, \<lparr>source = ''p2'', relation = ''up'', target = ''g1''\<rparr>, Some ''control''),
           (2, \<lparr>source = ''p1'', relation = ''down'', target = ''g1''\<rparr>, Some ''case'')])
       [(''FileName'', [''p1'', ''p2''])] ''out'' (\<lambda>k. Some (0 :: nat)) True (8 / 10) (1 / 10)
     = Inr (\<lparr>columns = [''Component_1'', ''Component_2'', ''label''],
             entries = [(''p1'', [Num 5, Num 6, Lab ''case'']),
                        (''p2'', [Num 9, Num 10, Lab ''control''])]\<rparr>, [])
   \<and> [''Component_1'', ''Component_2'', ''label''] \<noteq> [''Component_1'', ''Component_2'']
   \<and> [''p1'', ''p2'']
       \<noteq> sort_key (id_of [(''g1'', 1), (''p1'', 0), (''p2'', 2)])
           (map fst [(''g1'', 1 :: nat), (''p1'', 0), (''p2'', 2)])"
proof (intro conjI)
  show "do_kge
       (succeeding_externals
          \<lparr>model = \<lparr>entity_to_id = [(''g1'', 1), (''p1'', 0), (''p2'', 2)],
                     entity_representations =
                       [\<lparr>shape1 = 2, array_rows = [[5 :: int, 6], [7, 8], [9, 10]]\<rparr>]\<rparr>\<rparr>
         :: (nat list, nat, unit, int) externals)
       [3, 1, 4]
       (WithLabel
          [(0 :: nat, \<lparr>source = ''p1'', relation = ''up'', target = ''g1''\<rparr>, Some ''case''),
           (1, \<lparr>source = ''p2'', relation = ''up'', target = ''g1''\<rparr>, Some ''control''),
           (2, \<lparr>source = ''p1'', relation = ''down'', target = ''g1''\<rparr>, Some ''case'')])
       [(''FileName'', [''p1'', ''p2''])] ''out'' (\<lambda>k. Some (0 :: nat)) True (8 / 10) (1 / 10)
     = Inr (\<lparr>columns = [''Component_1'', ''Component_2'', ''label''],
             entries = [(''p1'', [Num 5, Num 6, Lab ''case'']),
                        (''p2'', [Num 9, Num 10, Lab ''control''])]\<rparr>, [])"
    by code_simp
  show "[''Component_1'', ''Component_2'', ''label''] \<noteq> [''Component_1'', ''Component_2'']"
    by simp
  show "[''p1'', ''p2'']
       \<noteq> sort_key (id_of [(''g1'', 1), (''p1'', 0), (''p2'', 2)])
           (map fst [(''g1'', 1 :: nat), (''p1'', 0), (''p2'', 2)])"
    by code_simp
qed

subsection \<open>Attaching the labels\<close>

lemma label_not_component:
  "''label'' \<notin> set (map (\<lambda>i. ''Component_'' @ str_nat i) ns)"
  by auto

lemma position_of_appended: "x \<notin> set xs \<Longrightarrow> position_of x (xs @ [x]) = length xs"
  by (induction xs) auto

lemma attach_labels_missing:
  "find (\<lambda>n. mapping n = None) idxs = Some n \<Longrightarrow>
     attach_labels mapping idxs t = Inl (KeyError n)"
proof (induction idxs arbitrary: t)
  case Nil
  then show ?case by simp
next
  case (Cons i idxs)
  show ?case
  proof (cases "mapping i")
    case None
    then show ?thesis using Cons.prems by simp
  next
    case (Some l)
    then have "find (\<lambda>n. mapping n = None) idxs = Some n" using Cons.prems by simp
    then show ?thesis using Cons.IH Some by simp
  qed
qed

lemma set_at_new_column:
  assumes "col \<notin> set cols" and "\<forall>(n, cs) \<in> set es. length cs = length cols"
  shows "set_at \<lparr>columns = cols, entries = es\<rparr> idx col v
     = \<lparr>columns = cols @ [col],
        entries = map (\<lambda>(n, cs). (n, cs @ [if n = idx then v else NaN])) es\<rparr>"
proof -
  have len: "length cs = length cols" if "(n, cs) \<in> set es" for n cs
    using assms(2) that by auto
  have "(case (case x of (n, cs) \<Rightarrow> (n, cs @ [NaN])) of
           (n, cs) \<Rightarrow> if n = idx then (n, cs[length cols := v]) else (n, cs))
      = (case x of (n, cs) \<Rightarrow> (n, cs @ [if n = idx then v else NaN]))" if "x \<in> set es" for x
  proof -
    obtain n cs where x: "x = (n, cs)" by (cases x)
    have "length cols = length cs" using len that x by simp
    then show ?thesis using x by simp
  qed
  then have "map (\<lambda>(n, cs). if n = idx then (n, cs[length cols := v]) else (n, cs))
          (map (\<lambda>(n, cs). (n, cs @ [NaN])) es)
      = map (\<lambda>(n, cs). (n, cs @ [if n = idx then v else NaN])) es"
    by simp
  then show ?thesis
    using assms(1) by (simp add: set_at_def position_of_appended cong: if_cong)
qed

lemma set_at_label_column:
  assumes "col \<notin> set cols" and "\<forall>(n, cs) \<in> set es. length cs = length cols"
  shows "set_at \<lparr>columns = cols @ [col],
                 entries = map (\<lambda>(n, cs). (n, cs @ [if n \<in> set seen then f n else NaN])) es\<rparr>
            idx col (f idx)
     = \<lparr>columns = cols @ [col],
        entries = map (\<lambda>(n, cs). (n, cs @ [if n \<in> set (idx # seen) then f n else NaN])) es\<rparr>"
proof -
  have len: "length cs = length cols" if "(n, cs) \<in> set es" for n cs
    using assms(2) that by auto
  have "(case (case x of (n, cs) \<Rightarrow> (n, cs @ [if n \<in> set seen then f n else NaN])) of
           (n, cs) \<Rightarrow> if n = idx then (n, cs[length cols := f idx]) else (n, cs))
      = (case x of (n, cs) \<Rightarrow> (n, cs @ [if n \<in> set (idx # seen) then f n else NaN]))"
    if "x \<in> set es" for x
  proof -
    obtain n cs where x: "x = (n, cs)" by (cases x)
    have "length cols = length cs" using len that x by simp
    then show ?thesis using x by simp
  qed
  then have "map (\<lambda>(n, cs). if n = idx then (n, cs[length cols := f idx]) else (n, cs))
          (map (\<lambda>(n, cs). (n, cs @ [if n \<in> set seen then f n else NaN])) es)
      = map (\<lambda>(n, cs). (n, cs @ [if n \<in> set (idx # seen) then f n else NaN])) es"
    by simp
  then show ?thesis
    using assms(1) by (simp add: set_at_def position_of_appended cong: if_cong)
qed

lemma attach_labels_more:
  assumes "''label'' \<notin> set cols" and "\<forall>(n, cs) \<in> set es. length cs = length cols"
  shows "\<forall>n \<in> set idxs. mapping n \<noteq> None \<Longrightarrow>
     attach_labels mapping idxs
       \<lparr>columns = cols @ [''label''],
        entries = map (\<lambda>(n, cs). (n, cs @ [if n \<in> set seen then Lab (the (mapping n)) else NaN])) es\<rparr>
     = Inr \<lparr>columns = cols @ [''label''],
            entries = map (\<lambda>(n, cs). (n, cs @ [if n \<in> set (idxs @ seen)
                                                 then Lab (the (mapping n)) else NaN])) es\<rparr>"
proof (induction idxs arbitrary: seen)
  case Nil
  then show ?case by simp
next
  case (Cons i idxs)
  obtain l where l: "mapping i = Some l" using Cons.prems by auto
  have step: "set_at \<lparr>columns = cols @ [''label''],
        entries = map (\<lambda>(n, cs). (n, cs @ [if n \<in> set seen then Lab (the (mapping n)) else NaN])) es\<rparr>
        i ''label'' (Lab l)
      = \<lparr>columns = cols @ [''label''],
        entries = map (\<lambda>(n, cs). (n, cs @ [if n \<in> set (i # seen) then Lab (the (mapping n)) else NaN])) es\<rparr>"
    using set_at_label_column [OF assms, of seen "\<lambda>n. Lab (the (mapping n))" i] l by simp
  have rest: "\<forall>n \<in> set idxs. mapping n \<noteq> None" using Cons.prems by simp
  have "set ((i # idxs) @ seen) = set (idxs @ i # seen)" by auto
  then show ?case using Cons.IH [OF rest, of "i # seen"] l step by simp
qed

lemma attach_labels_all:
  assumes "''label'' \<notin> set cols" and "\<forall>(n, cs) \<in> set es. length cs = length cols"
    and "\<forall>n \<in> set idxs. mapping n \<noteq> None" and "idxs \<noteq> []"
  shows "attach_labels mapping idxs \<lparr>columns = cols, entries = es\<rparr>
     = Inr \<lparr>columns = cols @ [''label''],
            entries = map (\<lambda>(n, cs). (n, cs @ [if n \<in> set idxs
                                                 then Lab (the (mapping n)) else NaN])) es\<rparr>"
proof -
  obtain i rest where ir: "idxs = i # rest" using assms(4) by (cases idxs) auto
  obtain l where l: "mapping i = Some l" using assms(3) ir by auto
  have first: "set_at \<lparr>columns = cols, entries = es\<rparr> i ''label'' (Lab l)
      = \<lparr>columns = cols @ [''label''],
         entries = map (\<lambda>(n, cs). (n, cs @ [if n \<in> set [i] then Lab (the (mapping n)) else NaN])) es\<rparr>"
    using set_at_new_column [OF assms(1,2), of i "Lab l"] l
    by auto
  have r: "\<forall>n \<in> set rest. mapping n \<noteq> None" using assms(3) ir by simp
  have "set (rest @ [i]) = set idxs" using ir by auto
  then show ?thesis
    using attach_labels_more [OF assms(1,2) r, of "[i]"] first l ir by simp
qed

lemma map_fst_filter: "map fst (filter (\<lambda>(n, cs). P n) xs) = filter P (map fst xs)"
  by (induction xs) auto

lemma patients_only_kept:
  assumes "map_of design ''FileName'' = Some file_names"
    and "length idx = length cells"
  shows "patients_only design mapping \<lparr>columns = cols, entries = zip idx cells\<rparr>
     = attach_labels mapping (filter (\<lambda>n. n \<in> set file_names) idx)
         \<lparr>columns = cols,
          entries = filter (\<lambda>(n, cs). n \<in> set file_names) (zip idx cells)\<rparr>"
proof -
  have "map fst (filter (\<lambda>(n, cs). n \<in> set file_names) (zip idx cells))
      = filter (\<lambda>n. n \<in> set file_names) (map fst (zip idx cells))"
    by (rule map_fst_filter)
  then have "map fst (filter (\<lambda>(n, cs). n \<in> set file_names) (zip idx cells))
      = filter (\<lambda>n. n \<in> set file_names) idx"
    using assms(2) by simp
  then show ?thesis using assms(1) by (simp add: patients_only_def)
qed

text \<open>
  Claim C9. With \<open>return_patients\<close> set, after a successful training, the rows kept are
  those whose index label is in the \<open>FileName\<close> column, in the order of the table. If a kept
  label has no entry in the labeled-node mapping, \<open>do_kge\<close> raises \<open>KeyError\<close> for the first
  such label and returns no table. Otherwise it returns the kept rows, with the column
  \<open>label\<close> added after the components, each row ending in the label the mapping holds for
  its index: no label cell is missing.
\<close>

theorem do_kge_patient_labels:
  fixes labelled :: "('i \<times> edge \<times> 'l option) list" and embedding_values :: "'v ndarray"
  assumes fit: "split_and_fit ext w (map (\<lambda>(i, e, l). (i, e)) labelled) out model_config
             train_size validation_size = Inr (best_model, w')"
    and rep: "entity_representations best_model = embedding_values # others"
    and shape: "length (array_rows embedding_values) = length (entity_to_id best_model)"
    and wf: "\<forall>row \<in> set (array_rows embedding_values). length row = shape1 embedding_values"
    and fn: "map_of design ''FileName'' = Some file_names"
    and kept: "kept = filter (\<lambda>n. n \<in> set file_names)
                 (sort_key (id_of (entity_to_id best_model)) (map fst (entity_to_id best_model)))"
  shows "((\<exists>n \<in> set kept. label_mapping labelled n = None) \<longrightarrow>
           (\<exists>missing \<in> set kept. label_mapping labelled missing = None
              \<and> find (\<lambda>n. label_mapping labelled n = None) kept = Some missing
              \<and> do_kge ext w (WithLabel labelled) design out model_config True train_size
                   validation_size = Inl (KeyError missing)))
       \<and> ((\<forall>n \<in> set kept. label_mapping labelled n \<noteq> None) \<longrightarrow>
           (\<exists>t. do_kge ext w (WithLabel labelled) design out model_config True train_size
                  validation_size = Inr (t, w')
              \<and> map fst (entries t) = kept
              \<and> (kept \<noteq> [] \<longrightarrow>
                   columns t = map (\<lambda>i. ''Component_'' @ str_nat i)
                                 [1..<shape1 embedding_values + 1] @ [''label''])
              \<and> (\<forall>(n, cs) \<in> set (entries t).
                    \<exists>l. label_mapping labelled n = Some l \<and> last cs = Lab l)))"
proof -
  let ?d = "entity_to_id best_model"
  let ?ix = "sort_key (id_of ?d) (map fst ?d)"
  let ?cols = "map (\<lambda>i. ''Component_'' @ str_nat i) [1..<shape1 embedding_values + 1]"
  let ?cells = "map (map Num) (array_rows embedding_values) :: ('v, 'l) cell list list"
  let ?m = "label_mapping labelled"
  let ?es = "filter (\<lambda>(n, cs). n \<in> set file_names) (zip ?ix ?cells)"
  have ef: "embedding_frame best_model = Inr \<lparr>columns = ?cols, entries = zip ?ix ?cells\<rparr>"
    using rep shape by (rule embedding_frame_ok)
  have len: "length ?ix = length ?cells" using shape by simp
  have po: "patients_only design ?m \<lparr>columns = ?cols, entries = zip ?ix ?cells\<rparr>
      = attach_labels ?m kept \<lparr>columns = ?cols, entries = ?es\<rparr>"
    unfolding kept using fn len by (rule patients_only_kept)
  have run: "do_kge ext w (WithLabel labelled) design out model_config True train_size
      validation_size
      = (case attach_labels ?m kept \<lparr>columns = ?cols, entries = ?es\<rparr> of
           Inl e \<Rightarrow> Inl e | Inr t \<Rightarrow> Inr (t, w'))"
    unfolding do_kge_after_fit [OF fit] ef using po by simp
  have fst_es: "map fst ?es = kept"
  proof -
    have "map fst ?es = filter (\<lambda>n. n \<in> set file_names) (map fst (zip ?ix ?cells))"
      using map_fst_filter [of "\<lambda>n. n \<in> set file_names" "zip ?ix ?cells"] .
    then show ?thesis unfolding kept using len by simp
  qed
  have a: "\<exists>missing \<in> set kept. ?m missing = None
              \<and> find (\<lambda>n. ?m n = None) kept = Some missing
              \<and> do_kge ext w (WithLabel labelled) design out model_config True train_size
                   validation_size = Inl (KeyError missing)"
    if ex: "\<exists>n \<in> set kept. ?m n = None"
  proof -
    obtain n where "n \<in> set kept" "?m n = None" using ex by blast
    then obtain missing where f: "find (\<lambda>n. ?m n = None) kept = Some missing"
      using find_exists [of n kept "\<lambda>n. ?m n = None"] by blast
    have "missing \<in> set kept" "?m missing = None" using find_SomeD [OF f] by simp_all
    moreover have "do_kge ext w (WithLabel labelled) design out model_config True train_size
                   validation_size = Inl (KeyError missing)"
      unfolding run attach_labels_missing [OF f] by (simp only: sum.case)
    ultimately show ?thesis using f by blast
  qed
  have b: "\<exists>t. do_kge ext w (WithLabel labelled) design out model_config True train_size
                  validation_size = Inr (t, w')
              \<and> map fst (entries t) = kept
              \<and> (kept \<noteq> [] \<longrightarrow> columns t = ?cols @ [''label''])
              \<and> (\<forall>(n, cs) \<in> set (entries t). \<exists>l. ?m n = Some l \<and> last cs = Lab l)"
    if all: "\<forall>n \<in> set kept. ?m n \<noteq> None"
  proof (cases "kept = []")
    case True
    then have "?es = []" using fst_es by simp
    then have "do_kge ext w (WithLabel labelled) design out model_config True train_size
        validation_size = Inr (\<lparr>columns = ?cols, entries = []\<rparr>, w')"
      unfolding run True by (simp only: attach_labels.simps sum.case)
    then show ?thesis using True by auto
  next
    case False
    have nl: "''label'' \<notin> set ?cols" by (rule label_not_component)
    have rl: "\<forall>(n, cs) \<in> set ?es. length cs = length ?cols"
    proof -
      have "length cs = length ?cols" if "(n, cs) \<in> set ?es" for n cs
      proof -
        have "(n, cs) \<in> set (zip ?ix ?cells)" using that by simp
        then have "cs \<in> set ?cells" by (rule set_zip_rightD)
        then obtain row where "row \<in> set (array_rows embedding_values)" "cs = map Num row"
          by auto
        then show ?thesis using wf by simp
      qed
      then show ?thesis by auto
    qed
    let ?t = "\<lparr>columns = ?cols @ [''label''],
            entries = map (\<lambda>(n, cs). (n, cs @ [if n \<in> set kept
                                                 then Lab (the (?m n)) else NaN])) ?es\<rparr>"
    have at: "attach_labels ?m kept \<lparr>columns = ?cols, entries = ?es\<rparr> = Inr ?t"
      using attach_labels_all [OF nl rl all False] .
    have r: "do_kge ext w (WithLabel labelled) design out model_config True train_size
        validation_size = Inr (?t, w')"
      unfolding run at by (simp only: sum.case)
    have i: "map fst (entries ?t) = kept"
      using fst_es by (simp add: comp_def split_beta)
    have c: "columns ?t = ?cols @ [''label'']" by (simp only: table.simps)
    have l: "\<forall>(n, cs) \<in> set (entries ?t). \<exists>l. ?m n = Some l \<and> last cs = Lab l"
    proof (rule ballI)
      fix x assume x: "x \<in> set (entries ?t)"
      obtain n cs where nc: "x = (n, cs)" by (cases x)
      have "(n, cs) \<in> (\<lambda>(n, cs). (n, cs @ [if n \<in> set kept
                                               then Lab (the (?m n)) else NaN])) ` set ?es"
        using x nc by simp
      then obtain y where y: "y \<in> set ?es"
        and yc: "(n, cs) = (case y of (n, cs) \<Rightarrow> (n, cs @ [if n \<in> set kept
                                               then Lab (the (?m n)) else NaN]))"
        by (rule imageE)
      obtain n0 cs0 where y0: "y = (n0, cs0)" by (cases y)
      have nn: "n0 = n" and cs: "cs = cs0 @ [if n \<in> set kept then Lab (the (?m n)) else NaN]"
        using yc y0 by simp_all
      have "fst y \<in> set (map fst ?es)" using y by (simp only: set_map) (rule imageI)
      then have nk: "n \<in> set kept" unfolding fst_es using y0 nn by simp
      then obtain l where lm: "?m n = Some l" using all by auto
      have "last cs = Lab l" using cs nk lm by simp
      then have "\<exists>l. ?m n = Some l \<and> last cs = Lab l" using lm by simp
      then show "case x of (n, cs) \<Rightarrow> \<exists>l. ?m n = Some l \<and> last cs = Lab l"
        unfolding nc by (simp only: prod.case)
    qed
    show ?thesis
      by (intro exI [of _ ?t] conjI impI) (rule r i c l)+
  qed
  show ?thesis using a b by blast
qed

text \<open>
  With the patients \<open>p1\<close> and \<open>p2\<close> in \<open>FileName\<close> both rows are labelled; with the gene
  \<open>g1\<close> added, which is never a source of the edgelist, the call raises on \<open>g1\<close>.
\<close>

theorem do_kge_patient_labels_witness:
  "(\<exists>t. do_kge
       (succeeding_externals
          \<lparr>model = \<lparr>entity_to_id = [(''g1'', 1), (''p1'', 0), (''p2'', 2)],
                     entity_representations =
                       [\<lparr>shape1 = 2, array_rows = [[5 :: int, 6], [7, 8], [9, 10]]\<rparr>]\<rparr>\<rparr>
         :: (nat list, nat, unit, int) externals)
       [3, 1, 4]
       (WithLabel
          [(0 :: nat, \<lparr>source = ''p1'', relation = ''up'', target = ''g1''\<rparr>, Some ''case''),
           (1, \<lparr>source = ''p2'', relation = ''up'', target = ''g1''\<rparr>, Some ''control''),
           (2, \<lparr>source = ''p1'', relation = ''down'', target = ''g1''\<rparr>, Some ''case'')])
       [(''FileName'', [''p1'', ''p2''])] ''out'' (\<lambda>k. Some (0 :: nat)) True (8 / 10) (1 / 10)
     = Inr (t, [])
     \<and> map fst (entries t) = [''p1'', ''p2'']
     \<and> (\<forall>(n, cs) \<in> set (entries t).
           \<exists>l. label_mapping
                 [(0 :: nat, \<lparr>source = ''p1'', relation = ''up'', target = ''g1''\<rparr>, Some ''case''),
                  (1, \<lparr>source = ''p2'', relation = ''up'', target = ''g1''\<rparr>, Some ''control''),
                  (2, \<lparr>source = ''p1'', relation = ''down'', target = ''g1''\<rparr>, Some ''case'')] n
                = Some l \<and> last cs = Lab l))
   \<and> do_kge
       (succeeding_externals
          \<lparr>model = \<lparr>entity_to_id = [(''g1'', 1), (''p1'', 0), (''p2'', 2)],
                     entity_representations =
                       [\<lparr>shape1 = 2, array_rows = [[5 :: int, 6], [7, 8], [9, 10]]\<rparr>]\<rparr>\<rparr>
         :: (nat list, nat, unit, int) externals)
       [3, 1, 4]
       (WithLabel
          [(0 :: nat, \<lparr>source = ''p1'', relation = ''up'', target = ''g1''\<rparr>, Some ''case''),
           (1, \<lparr>source = ''p2'', relation = ''up'', target = ''g1''\<rparr>, Some ''control''),
           (2, \<lparr>source = ''p1'', relation = ''down'', target = ''g1''\<rparr>, Some ''case'')])
       [(''FileName'', [''g1'', ''p1'', ''p2''])] ''out'' (\<lambda>k. Some (0 :: nat)) True (8 / 10)
       (1 / 10)
     = (Inl (KeyError ''g1'') :: error + (int, string) table \<times> nat list)"
proof -
  let ?a = "\<lparr>shape1 = 2, array_rows = [[5 :: int, 6], [7, 8], [9, 10]]\<rparr>"
  let ?m = "\<lparr>entity_to_id = [(''g1'', 1), (''p1'', 0), (''p2'', 2)],
             entity_representations = [?a]\<rparr>"
  let ?ext = "succeeding_externals \<lparr>model = ?m\<rparr> :: (nat list, nat, unit, int) externals"
  let ?rows = "[(0 :: nat, \<lparr>source = ''p1'', relation = ''up'', target = ''g1''\<rparr>, Some ''case''),
           (1, \<lparr>source = ''p2'', relation = ''up'', target = ''g1''\<rparr>, Some ''control''),
           (2, \<lparr>source = ''p1'', relation = ''down'', target = ''g1''\<rparr>, Some ''case'')]"
  have fit: "split_and_fit ?ext [3, 1, 4] (map (\<lambda>(i, e, l). (i, e)) ?rows) ''out''
      (\<lambda>k. Some (0 :: nat)) (8 / 10) (1 / 10) = Inr (?m, [])"
    by code_simp
  have rep: "entity_representations ?m = ?a # []" by simp
  have shape: "length (array_rows ?a) = length (entity_to_id ?m)" by simp
  have wf: "\<forall>row \<in> set (array_rows ?a). length row = shape1 ?a" by simp
  have fn1: "map_of [(''FileName'', [''p1'', ''p2''])] ''FileName'' = Some [''p1'', ''p2'']"
    by simp
  have k1: "[''p1'', ''p2''] = filter (\<lambda>n. n \<in> set [''p1'', ''p2''])
                 (sort_key (id_of (entity_to_id ?m)) (map fst (entity_to_id ?m)))"
    by code_simp
  have all1: "\<forall>n \<in> set [''p1'', ''p2'']. label_mapping ?rows n \<noteq> None"
    by code_simp
  have one: "\<exists>t :: (int, string) table.
      do_kge ?ext [3, 1, 4] (WithLabel ?rows) [(''FileName'', [''p1'', ''p2''])] ''out''
          (\<lambda>k. Some (0 :: nat)) True (8 / 10) (1 / 10) = Inr (t, [])
      \<and> map fst (entries t) = [''p1'', ''p2'']
      \<and> (\<forall>(n, cs) \<in> set (entries t). \<exists>l. label_mapping ?rows n = Some l \<and> last cs = Lab l)"
  proof -
    obtain t :: "(int, string) table" where
      "do_kge ?ext [3, 1, 4] (WithLabel ?rows) [(''FileName'', [''p1'', ''p2''])] ''out''
          (\<lambda>k. Some (0 :: nat)) True (8 / 10) (1 / 10) = Inr (t, [])"
      "map fst (entries t) = [''p1'', ''p2'']"
      "\<forall>(n, cs) \<in> set (entries t). \<exists>l. label_mapping ?rows n = Some l \<and> last cs = Lab l"
      using do_kge_patient_labels [OF fit rep shape wf fn1 k1, THEN conjunct2, THEN mp, OF all1]
      by (elim exE conjE)
    then show ?thesis by (intro exI [of _ t] conjI)
  qed
  have fn2: "map_of [(''FileName'', [''g1'', ''p1'', ''p2''])] ''FileName''
      = Some [''g1'', ''p1'', ''p2'']"
    by simp
  have k2: "[''p1'', ''g1'', ''p2''] = filter (\<lambda>n. n \<in> set [''g1'', ''p1'', ''p2''])
                 (sort_key (id_of (entity_to_id ?m)) (map fst (entity_to_id ?m)))"
    by code_simp
  have ex2: "\<exists>n \<in> set [''p1'', ''g1'', ''p2'']. label_mapping ?rows n = None"
    by code_simp
  have f2: "find (\<lambda>n. label_mapping ?rows n = None) [''p1'', ''g1'', ''p2''] = Some ''g1''"
    by code_simp
  have two: "do_kge ?ext [3, 1, 4] (WithLabel ?rows) [(''FileName'', [''g1'', ''p1'', ''p2''])]
      ''out'' (\<lambda>k. Some (0 :: nat)) True (8 / 10) (1 / 10)
      = (Inl (KeyError ''g1'') :: error + (int, string) table \<times> nat list)"
  proof -
    obtain missing where
      f: "find (\<lambda>n. label_mapping ?rows n = None) [''p1'', ''g1'', ''p2''] = Some missing"
      and r: "do_kge ?ext [3, 1, 4] (WithLabel ?rows) [(''FileName'', [''g1'', ''p1'', ''p2''])]
        ''out'' (\<lambda>k. Some (0 :: nat)) True (8 / 10) (1 / 10)
        = (Inl (KeyError missing) :: error + (int, string) table \<times> nat list)"
      using do_kge_patient_labels [OF fit rep shape wf fn2 k2, THEN conjunct1, THEN mp, OF ex2]
      by (elim bexE conjE)
    have "missing = ''g1''" using f f2 by simp
    then show ?thesis using r by simp
  qed
  show ?thesis using one two by (intro conjI)
qed

end

